theory Spec2Isabelle
  imports Main "HOL-Library.Sublist"
begin

section \<open>Python strings\<close>

text \<open>
  A Python \<open>str\<close> is a sequence of Unicode code points; it is modelled as the list of
  its code points.  An ASCII or Latin-1 literal of the source is written with \<open>py\<close>,
  which sends each character to its code point (\<open>CHR 0xE4\<close> is U+00E4, the letter a
  with diaeresis; \<open>CHR 0xF6\<close> is U+00F6, the letter o with diaeresis).
\<close>

type_synonym pystr = "nat list"

definition py :: "string \<Rightarrow> pystr" where
  "py s = map of_char s"

text \<open>The operator \<open>a in b\<close> on two strings: \<open>a\<close> occurs in \<open>b\<close> as a contiguous piece.\<close>

definition str_in :: "pystr \<Rightarrow> pystr \<Rightarrow> bool" where
  "str_in a b = sublist a b"

section \<open>The classification chain of \<open>search_term\<close>\<close>

text \<open>
  Lines 136 to 155 of \<open>medical_dictionary_scraper.py\<close>: the chain of tests that
  \<open>search_term\<close> runs on \<open>page_source\<close>.  \<open>str.lower\<close> belongs to the Python runtime,
  not to the repository, so it is the parameter \<open>lower\<close>; every theorem below holds for
  every such function.
\<close>

definition classify :: "(pystr \<Rightarrow> pystr) \<Rightarrow> pystr \<Rightarrow> pystr" where
  "classify lower page_source =
     (if str_in (py ''Ei tuloksia'') page_source then py ''not found''
      else if str_in (py (''Yhteens'' @ [CHR 0xE4])) page_source
              \<and> str_in (py ''osumaa'') page_source then py ''found''
      else if str_in (py (''L'' @ [CHR 0xE4, CHR 0xE4] @ ''ketieteen termit'')) page_source
              \<or> str_in (py ''termit'') (lower page_source) then py ''found''
      else (let page_source_lower = lower page_source in
            if str_in (py ''ei tuloksia'') page_source_lower
               \<or> str_in (py (''ei l'' @ [CHR 0xF6] @ ''ytynyt'')) page_source_lower
            then py ''not found''
            else py ''found''))"

text \<open>
  A stand-in for \<open>str.lower\<close> used where a theorem is run on a concrete page: it agrees
  with Python on strings of code points below 256 (A to Z, and U+00C0 to U+00DE apart
  from the multiplication sign U+00D7, move up by 32) and leaves every other code point
  alone.
\<close>

definition lower_latin1 :: "pystr \<Rightarrow> pystr" where
  "lower_latin1 s =
     map (\<lambda>c. if (65 \<le> c \<and> c \<le> 90) \<or> (192 \<le> c \<and> c \<le> 222 \<and> c \<noteq> 215) then c + 32 else c) s"

section \<open>Exceptions, the browser and the scraper object\<close>

text \<open>
  The exceptions that reach the two \<open>except\<close> clauses: Selenium's \<open>TimeoutException\<close>
  and any other subclass of \<open>Exception\<close>.  Each carries the text that \<open>str(e)\<close> gives.
  A \<open>UnicodeEncodeError\<close> raised by \<open>print\<close> is one of the latter.  What is not an
  \<open>Exception\<close> (a keyboard interrupt, an exit of the interpreter) is no error of the
  program and is left out.
\<close>

datatype exn = TimeoutException pystr | OtherException pystr

fun str_exn :: "exn \<Rightarrow> pystr" where
  "str_exn (TimeoutException m) = m"
| "str_exn (OtherException m) = m"

text \<open>
  A statement of the program either returns a value or raises, and changes the state
  in both cases: what a \<open>try\<close> block did before it raised stays done.
\<close>

type_synonym ('s, 'a) py = "'s \<Rightarrow> (exn + 'a) \<times> 's"

definition py_return :: "'a \<Rightarrow> ('s, 'a) py" where
  "py_return x s = (Inr x, s)"

definition py_bind :: "('s, 'a) py \<Rightarrow> ('a \<Rightarrow> ('s, 'b) py) \<Rightarrow> ('s, 'b) py" where
  "py_bind m f s = (case m s of (Inl e, s') \<Rightarrow> (Inl e, s') | (Inr x, s') \<Rightarrow> f x s')"

definition try_except :: "('s, 'a) py \<Rightarrow> (exn \<Rightarrow> ('s, 'a) py) \<Rightarrow> ('s, 'a) py" where
  "try_except m h s = (case m s of (Inl e, s') \<Rightarrow> h e s' | (Inr x, s') \<Rightarrow> (Inr x, s'))"

text \<open>
  The Selenium calls of the source.  The browser is outside the repository: its state is
  any type \<open>'d\<close>, its elements any type \<open>'e\<close>, and each call may return or raise.
  \<open>time.sleep\<close> lets the browser move on and does not raise.  \<open>str_lower\<close> is the
  runtime's \<open>str.lower\<close>.  The last two fields describe standard output:
  \<open>stdout_encodes c\<close> says whether its encoding has the code point \<open>c\<close>, and
  \<open>encode_error line\<close> is the text \<open>str(e)\<close> of the \<open>UnicodeEncodeError\<close> that printing
  \<open>line\<close> raises when it has not.
\<close>

datatype By = By_XPATH | By_ID | By_CSS_SELECTOR

datatype condition = element_to_be_clickable By pystr | presence_of_element_located By pystr

record ('d, 'e) env =
  str_lower :: "pystr \<Rightarrow> pystr"
  drv_get :: "pystr \<Rightarrow> ('d, unit) py"
  wait_until :: "condition \<Rightarrow> ('d, 'e) py"
  find_element :: "By \<Rightarrow> pystr \<Rightarrow> ('d, 'e) py"
  click :: "'e \<Rightarrow> ('d, unit) py"
  clear :: "'e \<Rightarrow> ('d, unit) py"
  send_keys :: "'e \<Rightarrow> pystr \<Rightarrow> ('d, unit) py"
  current_url :: "('d, pystr) py"
  page_source :: "('d, pystr) py"
  drv_quit :: "('d, unit) py"
  time_sleep :: "nat \<Rightarrow> 'd \<Rightarrow> 'd"
  stdout_encodes :: "nat \<Rightarrow> bool"
  encode_error :: "pystr \<Rightarrow> pystr"

text \<open>
  The fields of \<open>self\<close> that the methods read or write, the browser behind
  \<open>self.driver\<close>, and the lines printed so far.  A call of the browser changes the
  browser alone (\<open>drv\<close>), and \<open>time.sleep\<close> lets the browser move on.
\<close>

record 'd scraper =
  url :: pystr
  email :: pystr
  password :: pystr
  is_logged_in :: bool
  driver :: 'd
  stdout :: "pystr list"

definition drv :: "('d, 'a) py \<Rightarrow> ('d scraper, 'a) py" where
  "drv call s = (case call (driver s) of (r, d) \<Rightarrow> (r, s\<lparr>driver := d\<rparr>))"

definition sleep :: "('d, 'e) env \<Rightarrow> nat \<Rightarrow> ('d scraper, unit) py" where
  "sleep E n s = (Inr (), s\<lparr>driver := time_sleep E n (driver s)\<rparr>)"

text \<open>
  \<open>print\<close> encodes the whole line before it writes any of it.  Every encoding that
  standard output can have encodes the ASCII characters; a line with a code point that
  the encoding lacks raises \<open>UnicodeEncodeError\<close> and prints nothing.
\<close>

definition encodable :: "('d, 'e) env \<Rightarrow> pystr \<Rightarrow> bool" where
  "encodable E line = list_all (\<lambda>c. c < 128 \<or> stdout_encodes E c) line"

definition print :: "('d, 'e) env \<Rightarrow> pystr \<Rightarrow> ('d scraper, unit) py" where
  "print E line s =
     (if encodable E line then (Inr (), s\<lparr>stdout := stdout s @ [line]\<rparr>)
      else (Inl (OtherException (encode_error E line)), s))"

definition read :: "('s \<Rightarrow> 'a) \<Rightarrow> ('s, 'a) py" where
  "read field s = (Inr (field s), s)"

definition set_is_logged_in :: "bool \<Rightarrow> ('d scraper, unit) py" where
  "set_is_logged_in b s = (Inr (), s\<lparr>is_logged_in := b\<rparr>)"

text \<open>\<open>str(i)\<close> for a natural number: its decimal digits.\<close>

fun str_nat :: "nat \<Rightarrow> pystr" where
  "str_nat n = (if n < 10 then [48 + n] else str_nat (n div 10) @ [48 + n mod 10])"

declare str_nat.simps [simp del]

text \<open>
  \<open>__init__\<close>: \<open>chrome\<close> is the browser that \<open>webdriver.Chrome\<close> returns and \<open>out\<close> what
  the process has printed so far.  The argument \<open>headless\<close> only chooses the options
  with which that browser is started.
\<close>

definition init :: "pystr \<Rightarrow> pystr \<Rightarrow> 'd \<Rightarrow> pystr list \<Rightarrow> 'd scraper" where
  "init email' password' chrome out =
     \<lparr>url = py ''https://www.terveysportti.fi/apps/sanakirjat/'',
      email = email', password = password', is_logged_in = False,
      driver = chrome, stdout = out\<rparr>"

section \<open>\<open>login\<close>\<close>

text \<open>
  The \<open>try\<close> block of \<open>login\<close>.  \<open>login_flow\<close> is lines 56 to 93, up to the reading of
  \<open>self.driver.current_url\<close>; \<open>login_body\<close> is the whole block, which ends with the
  test of that URL.  The two non-ASCII code points are the check mark U+2713 and the
  ballot cross U+2717.
\<close>

definition login_flow :: "('d, 'e) env \<Rightarrow> ('d scraper, pystr) py" where
  "login_flow E =
     py_bind (print E (py ''Navigating to website...'')) (\<lambda>_.
     py_bind (read url) (\<lambda>u.
     py_bind (drv (drv_get E u)) (\<lambda>_.
     py_bind (print E (py ''Clicking login button...'')) (\<lambda>_.
     py_bind (drv (wait_until E (element_to_be_clickable By_XPATH
                (py ''//a[contains(@href, '/apps/duoauth/auth')]'')))) (\<lambda>login_button.
     py_bind (drv (click E login_button)) (\<lambda>_.
     py_bind (print E (py ''Waiting for login form...'')) (\<lambda>_.
     py_bind (sleep E 2) (\<lambda>_.
     py_bind (print E (py ''Entering credentials...'')) (\<lambda>_.
     py_bind (drv (wait_until E (presence_of_element_located By_ID (py ''username'')))) (\<lambda>username_input.
     py_bind (drv (clear E username_input)) (\<lambda>_.
     py_bind (read email) (\<lambda>em.
     py_bind (drv (send_keys E username_input em)) (\<lambda>_.
     py_bind (drv (find_element E By_ID (py ''password''))) (\<lambda>password_input.
     py_bind (drv (clear E password_input)) (\<lambda>_.
     py_bind (read password) (\<lambda>pw.
     py_bind (drv (send_keys E password_input pw)) (\<lambda>_.
     py_bind (print E (py ''Submitting login form...'')) (\<lambda>_.
     py_bind (drv (find_element E By_CSS_SELECTOR (py ''button[type='submit']''))) (\<lambda>login_submit.
     py_bind (drv (click E login_submit)) (\<lambda>_.
     py_bind (print E (py ''Waiting for login to complete...'')) (\<lambda>_.
     py_bind (sleep E 5) (\<lambda>_.
     drv (current_url E)))))))))))))))))))))))"

definition login_body :: "('d, 'e) env \<Rightarrow> ('d scraper, bool) py" where
  "login_body E =
     py_bind (login_flow E) (\<lambda>cur.
     if str_in (py ''sanakirjat'') cur then
       py_bind (print E (10003 # py '' Login successful!'')) (\<lambda>_.
       py_bind (set_is_logged_in True) (\<lambda>_.
       py_return True))
     else
       py_bind (print E (10007 # py '' Login may have failed - unexpected URL'')) (\<lambda>_.
       py_return False))"

definition login :: "('d, 'e) env \<Rightarrow> ('d scraper, bool) py" where
  "login E =
     try_except (login_body E)
       (\<lambda>e. py_bind (print E (py ''Error during login: '' @ str_exn e)) (\<lambda>_. py_return False))"

section \<open>\<open>search_term\<close>\<close>

text \<open>
  Lines 117 to 133: the search is typed into the page and the page source read back.
  \<open>Keys.RETURN\<close> is the code point U+E006.
\<close>

definition Keys_RETURN :: pystr where
  "Keys_RETURN = [57350]"

definition search_fetch :: "('d, 'e) env \<Rightarrow> pystr \<Rightarrow> ('d scraper, pystr) py" where
  "search_fetch E term =
     py_bind (read url) (\<lambda>u.
     py_bind (drv (drv_get E u)) (\<lambda>_.
     py_bind (drv (wait_until E (presence_of_element_located By_CSS_SELECTOR
                (py ''input[type='search'], input.form-control'')))) (\<lambda>search_input.
     py_bind (drv (clear E search_input)) (\<lambda>_.
     py_bind (drv (send_keys E search_input term)) (\<lambda>_.
     py_bind (drv (send_keys E search_input Keys_RETURN)) (\<lambda>_.
     py_bind (sleep E 3) (\<lambda>_.
     drv (page_source E))))))))"

text \<open>
  The handlers of lines 157 to 162, in the order of the source; \<open>CHR 0x27\<close> is the
  apostrophe.
\<close>

fun search_except :: "('d, 'e) env \<Rightarrow> pystr \<Rightarrow> exn \<Rightarrow> ('d scraper, pystr) py" where
  "search_except E term (TimeoutException m) =
     py_bind (print E (py ''Timeout while searching for term: '' @ term)) (\<lambda>_.
     py_return (py ''error''))"
| "search_except E term (OtherException m) =
     py_bind (print E (py (''Error searching for term '' @ [CHR 0x27]) @ term
                      @ py ([CHR 0x27] @ '': '') @ m)) (\<lambda>_.
     py_return (py ''error''))"

definition search_term :: "('d, 'e) env \<Rightarrow> pystr \<Rightarrow> ('d scraper, pystr) py" where
  "search_term E term =
     try_except
       (py_bind (search_fetch E term) (\<lambda>page_source. py_return (classify (str_lower E) page_source)))
       (search_except E term)"

section \<open>\<open>search_multiple_terms\<close>\<close>

text \<open>
  A \<open>dict\<close> keeps its keys in the order of their first insertion; storing under a key
  already present replaces the value where it stands.
\<close>

type_synonym pydict = "(pystr \<times> pystr) list"

fun setitem :: "pydict \<Rightarrow> pystr \<Rightarrow> pystr \<Rightarrow> pydict" where
  "setitem [] k v = [(k, v)]"
| "setitem ((k', v') # d) k v = (if k' = k then (k', v) # d else (k', v') # setitem d k v)"

text \<open>The comprehension of line 179.\<close>

definition error_dict :: "pystr list \<Rightarrow> pydict" where
  "error_dict terms = foldl (\<lambda>d term. setitem d term (py ''error'')) [] terms"

text \<open>The f-string of line 184, with \<open>i\<close> the counter and \<open>n\<close> the value of \<open>len(terms)\<close>.\<close>

definition announcement :: "nat \<Rightarrow> nat \<Rightarrow> pystr \<Rightarrow> pystr" where
  "announcement i n term = py ''Searching '' @ str_nat i @ py ''/'' @ str_nat n @ py '': '' @ term"

text \<open>
  The loop of lines 183 to 189: \<open>n\<close> is \<open>len(terms)\<close>, \<open>i\<close> the counter of \<open>enumerate\<close>,
  \<open>results\<close> the dictionary built so far.  The dictionary is local, so storing the status
  before or after \<open>time.sleep(1)\<close> gives the same run.
\<close>

fun search_loop :: "('d, 'e) env \<Rightarrow> nat \<Rightarrow> nat \<Rightarrow> pystr list \<Rightarrow> pydict \<Rightarrow> ('d scraper, pydict) py" where
  "search_loop E n i [] results = py_return results"
| "search_loop E n i (term # rest) results =
     py_bind (print E (announcement i n term)) (\<lambda>_.
     py_bind (search_term E term) (\<lambda>status.
     py_bind (sleep E 1) (\<lambda>_.
     search_loop E n (Suc i) rest (setitem results term status))))"

definition search_multiple_terms :: "('d, 'e) env \<Rightarrow> pystr list \<Rightarrow> ('d scraper, pydict) py" where
  "search_multiple_terms E terms =
     py_bind (read is_logged_in) (\<lambda>logged_in.
     if \<not> logged_in then
       py_bind (login E) (\<lambda>ok.
       if \<not> ok then
         py_bind (print E (py ''Failed to login. Cannot proceed with searches.'')) (\<lambda>_.
         py_return (error_dict terms))
       else search_loop E (length terms) 1 terms [])
     else search_loop E (length terms) 1 terms [])"

text \<open>\<open>close\<close>: a driver object is always true, so \<open>quit\<close> is always called.\<close>

definition close :: "('d, 'e) env \<Rightarrow> ('d scraper, unit) py" where
  "close E = drv (drv_quit E)"

section \<open>Vocabulary of the specification\<close>

text \<open>The distinct elements of a list, in the order in which they first occur.\<close>

fun first_occurrences :: "'a list \<Rightarrow> 'a list" where
  "first_occurrences [] = []"
| "first_occurrences (x # xs) = x # filter (\<lambda>y. y \<noteq> x) (first_occurrences xs)"

text \<open>
  The state in which the loop of \<open>search_multiple_terms\<close> starts: the state of the call
  when the session is logged in, the state that a successful \<open>login\<close> leaves otherwise,
  and none when that \<open>login\<close> fails.
\<close>

definition loop_entry :: "('d, 'e) env \<Rightarrow> 'd scraper \<Rightarrow> 'd scraper option" where
  "loop_entry E s =
     (if is_logged_in s then Some s
      else if fst (login E s) = Inr True then Some (snd (login E s))
      else None)"

text \<open>
  What the loop obtains for the occurrence of \<open>term\<close> that comes after the terms \<open>pre\<close>:
  it has run over \<open>pre\<close>, announces \<open>term\<close> and calls \<open>search_term\<close>, which returns a
  label or raises.
\<close>

definition occurrence_status ::
    "('d, 'e) env \<Rightarrow> nat \<Rightarrow> pystr list \<Rightarrow> pystr \<Rightarrow> 'd scraper \<Rightarrow> exn + pystr" where
  "occurrence_status E n pre term s0 =
     fst (search_term E term
       (snd (print E (announcement (Suc (length pre)) n term)
         (snd (search_loop E n 1 pre [] s0)))))"

text \<open>One turn of the loop body on the state alone: announce, search, sleep.\<close>

definition loop_step :: "('d, 'e) env \<Rightarrow> nat \<Rightarrow> 'd scraper \<Rightarrow> nat \<times> pystr \<Rightarrow> 'd scraper" where
  "loop_step E n s it =
     snd (sleep E 1 (snd (search_term E (snd it) (snd (print E (announcement (fst it) n (snd it)) s)))))"

text \<open>
  The operation \<open>ensure_authenticated\<close> in the words of the specification: if not already
  authenticated it calls \<open>login\<close>, otherwise it returns true immediately.  The source has
  no function of that name; the test stands at the head of \<open>search_multiple_terms\<close>.
\<close>

definition ensure_authenticated :: "('d, 'e) env \<Rightarrow> ('d scraper, bool) py" where
  "ensure_authenticated E =
     py_bind (read is_logged_in) (\<lambda>logged_in.
     if \<not> logged_in then login E else py_return True)"

text \<open>
  Two kinds of printed line: the announcement of a search, and the first line that
  \<open>login\<close> prints.
\<close>

definition announces :: "pystr \<Rightarrow> bool" where
  "announces l = (take 10 l = py ''Searching '')"

definition navigating :: pystr where
  "navigating = py ''Navigating to website...''"

section \<open>Frames\<close>

text \<open>
  \<open>frame P s s'\<close>: between \<open>s\<close> and \<open>s'\<close> only the browser has changed and lines that
  satisfy \<open>P\<close> have been printed.  \<open>keeps R m\<close>: every run of \<open>m\<close> relates the state
  before to the state after by \<open>R\<close>, whether it returns or raises.
\<close>

definition frame :: "(pystr \<Rightarrow> bool) \<Rightarrow> 'd scraper \<Rightarrow> 'd scraper \<Rightarrow> bool" where
  "frame P s s' \<longleftrightarrow>
     url s' = url s \<and> email s' = email s \<and> password s' = password s
     \<and> is_logged_in s' = is_logged_in s
     \<and> (\<exists>ls. stdout s' = stdout s @ ls \<and> list_all P ls)"

definition keeps :: "('s \<Rightarrow> 's \<Rightarrow> bool) \<Rightarrow> ('s, 'a) py \<Rightarrow> bool" where
  "keeps R m = (\<forall>s. R s (snd (m s)))"

text \<open>The lines that \<open>search_term\<close> prints start with T or with E.\<close>

definition search_line :: "pystr \<Rightarrow> bool" where
  "search_line l = (l \<noteq> [] \<and> (hd l = 84 \<or> hd l = 69))"

section \<open>A scripted browser\<close>

text \<open>
  A stand-in for the browser, on which the theorems below are run: it records the
  current URL, the text typed into the focused field, the page source and the number of
  pages loaded so far.  \<open>link\<close> says whether the login link appears, \<open>accept\<close> whether
  the site takes the credentials, and \<open>site n term\<close> is what a search for \<open>term\<close> gives
  when \<open>n\<close> pages have been loaded: a page, or an exception.  Standard output encodes
  every code point, as UTF-8 does; \<open>ascii_stdout\<close> turns it into one that encodes ASCII
  alone.
\<close>

record browser =
  location :: pystr
  typed :: pystr
  source :: pystr
  gets :: nat

definition fake_env :: "bool \<Rightarrow> bool \<Rightarrow> (nat \<Rightarrow> pystr \<Rightarrow> exn + pystr) \<Rightarrow> (browser, nat) env" where
  "fake_env link accept site =
     \<lparr>str_lower = lower_latin1,
      drv_get = (\<lambda>u d. (Inr (), d\<lparr>location := u, gets := Suc (gets d)\<rparr>)),
      wait_until = (\<lambda>c d. case c of
          element_to_be_clickable b sel \<Rightarrow>
            if link then (Inr 0, d) else (Inl (TimeoutException (py ''Message: '')), d)
        | presence_of_element_located b sel \<Rightarrow> (Inr 1, d)),
      find_element = (\<lambda>b sel d. (Inr (if b = By_ID then 2 else 3), d)),
      click = (\<lambda>e d. (Inr (),
          if e = 3 \<and> accept
          then d\<lparr>location := py ''https://www.terveysportti.fi/apps/sanakirjat/''\<rparr>
          else d\<lparr>location := py ''https://www.terveysportti.fi/apps/duoauth/auth''\<rparr>)),
      clear = (\<lambda>e d. (Inr (), d\<lparr>typed := []\<rparr>)),
      send_keys = (\<lambda>e keys d.
          if keys = Keys_RETURN then
            (case site (gets d) (typed d) of
               Inl x \<Rightarrow> (Inl x, d)
             | Inr page \<Rightarrow> (Inr (), d\<lparr>source := page\<rparr>))
          else (Inr (), d\<lparr>typed := typed d @ keys\<rparr>)),
      current_url = (\<lambda>d. (Inr (location d), d)),
      page_source = (\<lambda>d. (Inr (source d), d)),
      drv_quit = (\<lambda>d. (Inr (), d)),
      time_sleep = (\<lambda>n d. d),
      stdout_encodes = (\<lambda>c. True),
      encode_error = (\<lambda>line. py ''codec can't encode character'')\<rparr>"

definition ascii_stdout :: "('d, 'e) env \<Rightarrow> ('d, 'e) env" where
  "ascii_stdout E = E\<lparr>stdout_encodes := (\<lambda>c. False)\<rparr>"

text \<open>
  The site of the examples.  "Kirjasto" has no result on the first page loaded and one
  result on later pages; "l\"a\"ak\"ari" has 305; "hidas" and the term \<open>beta_salpaaja\<close>, which
  starts with the Greek letter U+03B2, time out; "rikki" breaks the window, with a
  message that has the letter U+00F6; any other term gives an empty page.
\<close>

definition Kirjasto :: pystr where
  "Kirjasto = py ''Kirjasto''"

definition laakari :: pystr where
  "laakari = py (''l'' @ [CHR 0xE4, CHR 0xE4] @ ''k'' @ [CHR 0xE4] @ ''ri'')"

definition beta_salpaaja :: pystr where
  "beta_salpaaja = 946 # py ''-salpaaja''"

definition fake_site :: "nat \<Rightarrow> pystr \<Rightarrow> exn + pystr" where
  "fake_site n term =
     (if term = Kirjasto then
        (if n \<le> 1 then Inr (py ''<p>Ei tuloksia</p>'')
         else Inr (py (''<p>Yhteens'' @ [CHR 0xE4] @ '' 1 osumaa</p>'')))
      else if term = laakari then Inr (py (''<p>Yhteens'' @ [CHR 0xE4] @ '' 305 osumaa</p>''))
      else if term = py ''hidas'' \<or> term = beta_salpaaja
        then Inl (TimeoutException (py ''Message: timed out''))
      else if term = py ''rikki''
        then Inl (OtherException (py (''Message: ikkunaa ei l'' @ [CHR 0xF6] @ ''ydy'')))
      else Inr (py ''<html></html>''))"

definition fresh :: "browser scraper" where
  "fresh = init (py ''user@example.org'') (py ''secret'')
     \<lparr>location = [], typed = [], source = [], gets = 0\<rparr> []"

text \<open>The same scraper once a login has succeeded, with no page loaded yet.\<close>

definition signed_in :: "browser scraper" where
  "signed_in = fresh\<lparr>is_logged_in := True\<rparr>"

section \<open>The classification chain returns one of two labels\<close>

lemma classify_label: "classify lw c = py ''found'' \<or> classify lw c = py ''not found''"
  by (simp add: classify_def Let_def)

section \<open>Basic facts about statements\<close>

lemma encodable_append: "encodable E (a @ b) \<longleftrightarrow> encodable E a \<and> encodable E b"
  by (simp add: encodable_def)

lemma encodable_all: "(\<And>c. stdout_encodes E c) \<Longrightarrow> encodable E line"
  by (simp add: encodable_def list_all_iff)

lemma encodable_str_nat: "encodable E (str_nat n)"
proof (induction n rule: str_nat.induct)
  case (1 n)
  show ?case
  proof (cases "n < 10")
    case True
    then show ?thesis by (subst str_nat.simps) (simp add: encodable_def)
  next
    case False
    have "n mod 10 < 10" by simp
    then have "48 + n mod 10 < 128" by linarith
    then show ?thesis
      using False "1.IH" by (subst str_nat.simps) (simp add: encodable_append, simp add: encodable_def)
  qed
qed

lemma encodable_announcement: "encodable E (announcement i n t) \<longleftrightarrow> encodable E t"
proof -
  have "encodable E (py ''Searching '')" "encodable E (py ''/'')" "encodable E (py '': '')"
    by (simp_all add: encodable_def py_def)
  then show ?thesis
    by (simp add: announcement_def encodable_append encodable_str_nat)
qed

lemma encodable_navigating: "encodable E (py ''Navigating to website...'')"
  by (simp add: encodable_def py_def)

lemma encodable_failed: "encodable E (py ''Failed to login. Cannot proceed with searches.'')"
  by (simp add: encodable_def py_def)

lemma py_bind_print:
  "encodable E l \<Longrightarrow> py_bind (print E l) f s = f () (s\<lparr>stdout := stdout s @ [l]\<rparr>)"
  by (simp add: py_bind_def print_def)

lemma py_bind_print_raises:
  "\<not> encodable E l \<Longrightarrow> py_bind (print E l) f s = (Inl (OtherException (encode_error E l)), s)"
  by (simp add: py_bind_def print_def)

lemma py_bind_sleep: "py_bind (sleep E k) f s = f () (s\<lparr>driver := time_sleep E k (driver s)\<rparr>)"
  by (simp add: py_bind_def sleep_def)

lemma py_bind_Inr: "fst (m s) = Inr x \<Longrightarrow> py_bind m f s = f x (snd (m s))"
  by (cases "m s") (simp add: py_bind_def)

lemma py_bind_Inl: "fst (m s) = Inl e \<Longrightarrow> py_bind m f s = (Inl e, snd (m s))"
  by (cases "m s") (simp add: py_bind_def)

lemma py_bind_assoc: "py_bind (py_bind m f) g = py_bind m (\<lambda>x. py_bind (f x) g)"
  by (rule ext) (simp add: py_bind_def split: prod.splits sum.splits)

lemma py_bind_return: "py_bind (py_return x) f = f x"
  by (rule ext) (simp add: py_bind_def py_return_def)

lemma frame_refl: "frame P s s"
  by (simp add: frame_def)

lemma frame_trans: "frame P s s1 \<Longrightarrow> frame P s1 s2 \<Longrightarrow> frame P s s2"
  by (auto simp: frame_def)

lemma keeps_return: "keeps (frame P) (py_return x)"
  by (simp add: keeps_def py_return_def frame_refl)

lemma keeps_read: "keeps (frame P) (read f)"
  by (simp add: keeps_def read_def frame_refl)

lemma keeps_drv: "keeps (frame P) (drv c)"
  by (simp add: keeps_def drv_def frame_def split: prod.splits)

lemma keeps_sleep: "keeps (frame P) (sleep E n)"
  by (simp add: keeps_def sleep_def frame_def)

lemma keeps_print: "P l \<Longrightarrow> keeps (frame P) (print E l)"
  by (simp add: keeps_def print_def frame_def)

lemma keeps_bind:
  assumes "keeps (frame P) m" and "\<And>x. keeps (frame P) (f x)"
  shows "keeps (frame P) (py_bind m f)"
  unfolding keeps_def
proof
  fix s
  obtain r s1 where m: "m s = (r, s1)" by (cases "m s")
  have f1: "frame P s s1" using assms(1) m by (auto simp: keeps_def dest: spec[of _ s])
  show "frame P s (snd (py_bind m f s))"
  proof (cases r)
    case (Inl e)
    then show ?thesis using m f1 by (simp add: py_bind_def)
  next
    case (Inr x)
    have "frame P s1 (snd (f x s1))" using assms(2)[of x] by (simp add: keeps_def)
    then show ?thesis using m f1 Inr by (auto simp: py_bind_def intro: frame_trans)
  qed
qed

lemma keeps_try:
  assumes "keeps (frame P) m" and "\<And>e. keeps (frame P) (h e)"
  shows "keeps (frame P) (try_except m h)"
  unfolding keeps_def
proof
  fix s
  obtain r s1 where m: "m s = (r, s1)" by (cases "m s")
  have f1: "frame P s s1" using assms(1) m by (auto simp: keeps_def dest: spec[of _ s])
  show "frame P s (snd (try_except m h s))"
  proof (cases r)
    case (Inr x)
    then show ?thesis using m f1 by (simp add: try_except_def)
  next
    case (Inl e)
    have "frame P s1 (snd (h e s1))" using assms(2)[of e] by (simp add: keeps_def)
    then show ?thesis using m f1 Inl by (auto simp: try_except_def intro: frame_trans)
  qed
qed

lemma keeps_mono: "keeps (frame P) m \<Longrightarrow> (\<And>l. P l \<Longrightarrow> Q l) \<Longrightarrow> keeps (frame Q) m"
  unfolding keeps_def frame_def list_all_iff by blast

lemmas keeps_intros =
  keeps_bind keeps_try keeps_return keeps_read keeps_drv keeps_sleep keeps_print

lemma keeps_out:
  "keeps (frame P) m \<Longrightarrow> \<exists>ls. stdout (snd (m s)) = stdout s @ ls \<and> list_all P ls"
  by (simp add: keeps_def frame_def)

lemma bind_print_out:
  assumes "encodable E l" and "\<And>u. keeps (frame P) (f u)"
  shows "\<exists>ls. stdout (snd (py_bind (print E l) f s)) = stdout s @ l # ls \<and> list_all P ls"
  using keeps_out[OF assms(2)[of "()"], of "s\<lparr>stdout := stdout s @ [l]\<rparr>"]
  by (auto simp add: py_bind_print[OF assms(1)])

section \<open>Facts about printed lines\<close>

lemma search_line_not_announces: "search_line l \<Longrightarrow> \<not> announces l"
  by (cases l) (auto simp: search_line_def announces_def py_def)

lemma search_line_not_navigating: "search_line l \<Longrightarrow> l \<noteq> navigating"
  by (auto simp: search_line_def navigating_def py_def)

lemma announces_announcement: "announces (announcement i n t)"
  by (simp add: announces_def announcement_def py_def)

lemma announces_not_navigating: "announces l \<Longrightarrow> l \<noteq> navigating"
  by (auto simp: announces_def navigating_def py_def)

section \<open>Facts about \<open>login\<close>\<close>

lemma login_flow_frame: "keeps (frame (\<lambda>l. \<not> announces l)) (login_flow E)"
  unfolding login_flow_def by (intro keeps_intros) (simp_all add: announces_def py_def)

lemma login_flow_flag: "is_logged_in (snd (login_flow E s)) = is_logged_in s"
  using login_flow_frame[of E] by (simp add: keeps_def frame_def)

lemma login_flow_out:
  "\<exists>ls. stdout (snd (login_flow E s)) = stdout s @ navigating # ls
     \<and> list_all (\<lambda>l. l \<noteq> navigating) ls"
  unfolding login_flow_def navigating_def
  by (rule bind_print_out[OF encodable_navigating]) (intro keeps_intros; simp add: py_def)

lemma login_cases:
  obtains (raise) e s1 where "login_flow E s = (Inl e, s1)"
  | (bad_url) cur s1 where "login_flow E s = (Inr cur, s1)" "\<not> str_in (py ''sanakirjat'') cur"
  | (ok) cur s1 where "login_flow E s = (Inr cur, s1)" "str_in (py ''sanakirjat'') cur"
proof (cases "login_flow E s")
  case (Pair r s1)
  then show ?thesis using that by (cases r) auto
qed

lemmas login_unfold = login_def login_body_def try_except_def py_bind_def print_def
  py_return_def set_is_logged_in_def

lemma login_True_iff:
  "fst (login E s) = Inr True
   \<longleftrightarrow> (\<exists>cur. fst (login_flow E s) = Inr cur \<and> str_in (py ''sanakirjat'') cur
         \<and> encodable E (10003 # py '' Login successful!''))"
  by (cases rule: login_cases[of E s]) (simp_all add: login_unfold)

lemma login_flag:
  "is_logged_in (snd (login E s)) = (is_logged_in s \<or> fst (login E s) = Inr True)"
  using login_flow_flag[of E s]
  by (cases rule: login_cases[of E s]) (simp_all add: login_unfold)

lemma login_tail:
  "\<exists>ls. stdout (snd (login E s)) = stdout (snd (login_flow E s)) @ ls
     \<and> list_all (\<lambda>l. l \<noteq> navigating \<and> \<not> announces l) ls"
proof -
  have a: "py ''Error during login: '' @ m \<noteq> navigating"
    "\<not> announces (py ''Error during login: '' @ m)"
    "10007 # py '' Login may have failed - unexpected URL'' \<noteq> navigating"
    "\<not> announces (10007 # py '' Login may have failed - unexpected URL'')"
    "10003 # py '' Login successful!'' \<noteq> navigating"
    "\<not> announces (10003 # py '' Login successful!'')" for m
    by (simp_all add: announces_def navigating_def py_def)
  show ?thesis
    by (cases rule: login_cases[of E s]) (simp_all add: login_unfold a)
qed

lemma login_out:
  "\<exists>ls. stdout (snd (login E s)) = stdout s @ navigating # ls
     \<and> list_all (\<lambda>l. l \<noteq> navigating) ls"
proof -
  obtain l1 where l1: "stdout (snd (login_flow E s)) = stdout s @ navigating # l1"
    "list_all (\<lambda>l. l \<noteq> navigating) l1"
    using login_flow_out by blast
  obtain l2 where l2: "stdout (snd (login E s)) = stdout (snd (login_flow E s)) @ l2"
    "list_all (\<lambda>l. l \<noteq> navigating \<and> \<not> announces l) l2"
    using login_tail by blast
  have "stdout (snd (login E s)) = stdout s @ navigating # (l1 @ l2)"
    using l1(1) l2(1) by simp
  moreover have "list_all (\<lambda>l. l \<noteq> navigating) (l1 @ l2)"
    using l1(2) l2(2) by (auto simp: list_all_iff)
  ultimately show ?thesis by blast
qed


section \<open>Facts about \<open>search_term\<close>\<close>

lemma search_fetch_frame: "keeps (frame (\<lambda>l. False)) (search_fetch E t)"
  unfolding search_fetch_def by (intro keeps_intros)

lemma search_fetch_stdout: "stdout (snd (search_fetch E t s)) = stdout s"
  using search_fetch_frame[of E t]
  by (auto simp: keeps_def frame_def list_all_iff dest!: spec[of _ s])

lemma search_term_ok:
  "search_fetch E t s = (Inr c, s1) \<Longrightarrow>
   search_term E t s = (Inr (classify (str_lower E) c), s1)"
  by (simp add: search_term_def try_except_def py_bind_def py_return_def)

lemma search_term_raised:
  "search_fetch E t s = (Inl e, s1) \<Longrightarrow> search_term E t s = search_except E t e s1"
  by (simp add: search_term_def try_except_def py_bind_def py_return_def)

lemma search_except_label:
  "fst (search_except E t e s) = Inr st \<Longrightarrow> st = py ''error''"
  by (cases e) (auto simp: py_bind_def print_def py_return_def split: if_splits)

lemma search_cases:
  obtains (ok) c s1 where "search_fetch E t s = (Inr c, s1)"
  | (raised) e s1 where "search_fetch E t s = (Inl e, s1)"
proof (cases "search_fetch E t s")
  case (Pair r s1)
  then show ?thesis using that by (cases r) auto
qed

lemma search_term_label:
  "fst (search_term E t s) = Inr st \<Longrightarrow>
   st = py ''found'' \<or> st = py ''not found'' \<or> st = py ''error''"
  using classify_label[of "str_lower E"]
  by (cases rule: search_cases[of E t s])
     (auto simp add: search_term_ok search_term_raised dest: search_except_label)

lemma search_term_frame: "keeps (frame search_line) (search_term E t)"
proof -
  have h: "keeps (frame search_line) (search_except E t e)" for e
    by (cases e) (auto intro!: keeps_intros simp: search_line_def py_def)
  have "keeps (frame search_line) (search_fetch E t)"
    unfolding search_fetch_def by (intro keeps_intros)
  then show ?thesis unfolding search_term_def
    by (intro keeps_intros h)
qed

lemma search_term_flag: "is_logged_in (snd (search_term E t s)) = is_logged_in s"
  using search_term_frame[of E t] by (simp add: keeps_def frame_def)

lemma search_term_out:
  "\<exists>ls. stdout (snd (search_term E t s)) = stdout s @ ls \<and> list_all search_line ls"
  using search_term_frame[of E t] by (simp add: keeps_def frame_def)

lemma search_term_returns:
  assumes "\<And>c. stdout_encodes E c"
  shows "\<exists>st. fst (search_term E t s) = Inr st"
proof (cases rule: search_cases[of E t s])
  case (ok c s1)
  then show ?thesis by (simp add: search_term_ok)
next
  case (raised e s1)
  then show ?thesis
    by (cases e) (simp_all add: search_term_raised py_bind_print[OF encodable_all[OF assms]] py_return_def)
qed

section \<open>Facts about dictionaries\<close>

lemma map_fst_setitem:
  "map fst (setitem d k v) = (if k \<in> set (map fst d) then map fst d else map fst d @ [k])"
  by (induction d k v rule: setitem.induct) auto

lemma map_of_setitem: "map_of (setitem d k v) = (map_of d)(k \<mapsto> v)"
  by (induction d k v rule: setitem.induct) (auto simp: fun_eq_iff)

lemma filter_first_occurrences:
  "filter P (first_occurrences xs) = first_occurrences (filter P xs)"
proof (induction xs)
  case Nil
  then show ?case by simp
next
  case (Cons x xs)
  show ?case
  proof (cases "P x")
    case True
    then show ?thesis using Cons.IH[symmetric] by (simp add: conj_commute)
  next
    case False
    have "filter P (filter (\<lambda>y. y \<noteq> x) (first_occurrences xs)) = filter P (first_occurrences xs)"
      using False by (auto intro!: filter_cong)
    then show ?thesis using False Cons.IH by simp
  qed
qed

lemma set_first_occurrences: "set (first_occurrences xs) = set xs"
  by (induction xs) auto

lemma distinct_first_occurrences: "distinct (first_occurrences xs)"
  by (induction xs) (auto simp: set_first_occurrences)

lemma length_first_occurrences: "length (first_occurrences xs) = card (set xs)"
  using distinct_card[OF distinct_first_occurrences, of xs]
  by (simp add: set_first_occurrences)

lemma error_fold_keys:
  "map fst (foldl (\<lambda>d term. setitem d term v) r ts)
   = map fst r @ first_occurrences (filter (\<lambda>t. t \<notin> set (map fst r)) ts)"
proof (induction ts arbitrary: r)
  case Nil
  then show ?case by simp
next
  case (Cons t ts)
  show ?case
    unfolding foldl_Cons Cons.IH
    by (auto simp: map_fst_setitem filter_first_occurrences conj_commute
        intro!: arg_cong[where f = first_occurrences] filter_cong)
qed

lemma error_fold_values:
  "list_all (\<lambda>kv. snd kv = v) r \<Longrightarrow>
   list_all (\<lambda>kv. snd kv = v) (foldl (\<lambda>d term. setitem d term v) r ts)"
proof (induction ts arbitrary: r)
  case Nil
  then show ?case by simp
next
  case (Cons t ts)
  have "list_all (\<lambda>kv. snd kv = v) (setitem r t v)"
    using Cons.prems by (induction r t v rule: setitem.induct) auto
  then show ?case using Cons.IH by simp
qed

lemma error_dict_keys: "map fst (error_dict terms) = first_occurrences terms"
  by (simp add: error_dict_def error_fold_keys)

lemma error_dict_values: "list_all (\<lambda>kv. snd kv = py ''error'') (error_dict terms)"
  unfolding error_dict_def by (rule error_fold_values) simp

lemma error_dict_lookup:
  "map_of (error_dict terms) t = (if t \<in> set terms then Some (py ''error'') else None)"
proof (cases "t \<in> set terms")
  case True
  then have "t \<in> fst ` set (error_dict terms)"
    using error_dict_keys[of terms] set_first_occurrences[of terms]
    by (metis set_map)
  then obtain v where v: "map_of (error_dict terms) t = Some v"
    by (metis domD dom_map_of_conv_image_fst)
  then have "(t, v) \<in> set (error_dict terms)" by (rule map_of_SomeD)
  then have "v = py ''error''"
    using error_dict_values[of terms] by (auto simp: list_all_iff)
  then show ?thesis using v True by simp
next
  case False
  then have "t \<notin> fst ` set (error_dict terms)"
    using error_dict_keys[of terms] set_first_occurrences[of terms]
    by (metis set_map)
  then show ?thesis using False by (simp add: map_of_eq_None_iff)
qed

section \<open>Facts about the loop\<close>

lemma loop_step_printed:
  "encodable E (announcement i n t) \<Longrightarrow>
   loop_step E n s (i, t) =
     (snd (search_term E t (s\<lparr>stdout := stdout s @ [announcement i n t]\<rparr>)))
       \<lparr>driver := time_sleep E 1
          (driver (snd (search_term E t (s\<lparr>stdout := stdout s @ [announcement i n t]\<rparr>))))\<rparr>"
  by (simp add: loop_step_def print_def sleep_def)

lemma search_loop_Cons:
  assumes "encodable E (announcement i n t)"
    and "fst (search_term E t (s\<lparr>stdout := stdout s @ [announcement i n t]\<rparr>)) = Inr st"
  shows "search_loop E n i (t # ts) r s
       = search_loop E n (Suc i) ts (setitem r t st) (loop_step E n s (i, t))"
  by (simp add: py_bind_print[OF assms(1)]
      py_bind_Inr[of "search_term E t" _ st, OF assms(2)] py_bind_sleep
      loop_step_printed[OF assms(1)])

text \<open>A loop that returns has printed its announcement and has had a label from its search.\<close>

lemma search_loop_step:
  assumes "fst (search_loop E n i (t # ts) r s) = Inr d"
  shows "encodable E (announcement i n t)
     \<and> (\<exists>st. fst (search_term E t (snd (print E (announcement i n t) s))) = Inr st
           \<and> search_loop E n i (t # ts) r s
               = search_loop E n (Suc i) ts (setitem r t st) (loop_step E n s (i, t)))"
proof -
  have e: "encodable E (announcement i n t)"
  proof (rule ccontr)
    assume "\<not> encodable E (announcement i n t)"
    then show False using assms by (simp add: py_bind_print_raises)
  qed
  let ?s1 = "s\<lparr>stdout := stdout s @ [announcement i n t]\<rparr>"
  have p: "snd (print E (announcement i n t) s) = ?s1"
    using e by (simp add: print_def)
  obtain x where x: "fst (search_term E t ?s1) = x" by simp
  show ?thesis
  proof (cases x)
    case (Inl ex)
    then have "fst (search_loop E n i (t # ts) r s) = Inl ex"
      using x by (simp add: py_bind_print[OF e] py_bind_Inl[of "search_term E t" ?s1 ex])
    then show ?thesis using assms by simp
  next
    case (Inr st)
    then have st: "fst (search_term E t ?s1) = Inr st" using x by simp
    show ?thesis
      using e st search_loop_Cons[OF e st] by (simp only: p) blast
  qed
qed

lemma search_loop_state:
  "fst (search_loop E n i ts r s) = Inr d \<Longrightarrow>
   snd (search_loop E n i ts r s) = foldl (loop_step E n) s (enumerate i ts)"
proof (induction ts arbitrary: i r s)
  case Nil
  then show ?case by (simp add: py_return_def)
next
  case (Cons t ts)
  obtain st where st: "search_loop E n i (t # ts) r s
        = search_loop E n (Suc i) ts (setitem r t st) (loop_step E n s (i, t))"
    using search_loop_step[OF Cons.prems] by blast
  have "snd (search_loop E n (Suc i) ts (setitem r t st) (loop_step E n s (i, t)))
      = foldl (loop_step E n) (loop_step E n s (i, t)) (enumerate (Suc i) ts)"
    using Cons.prems unfolding st by (rule Cons.IH)
  then show ?case unfolding st by simp
qed

lemma search_loop_append:
  "search_loop E n i (xs @ ys) r =
   py_bind (search_loop E n i xs r) (\<lambda>r1. search_loop E n (i + length xs) ys r1)"
  by (induction xs arbitrary: i r) (simp_all add: py_bind_return py_bind_assoc)

lemma search_loop_keys:
  "fst (search_loop E n i ts r s) = Inr d \<Longrightarrow>
   map fst d = map fst r @ first_occurrences (filter (\<lambda>t. t \<notin> set (map fst r)) ts)"
proof (induction ts arbitrary: i r s)
  case Nil
  then show ?case by (simp add: py_return_def)
next
  case (Cons t ts)
  obtain st where st: "search_loop E n i (t # ts) r s
        = search_loop E n (Suc i) ts (setitem r t st) (loop_step E n s (i, t))"
    using search_loop_step[OF Cons.prems] by blast
  from Cons.prems have
    "map fst d = map fst (setitem r t st)
       @ first_occurrences (filter (\<lambda>x. x \<notin> set (map fst (setitem r t st))) ts)"
    unfolding st by (rule Cons.IH)
  then show ?case
    by (auto simp: map_fst_setitem filter_first_occurrences conj_commute
        intro!: arg_cong[where f = first_occurrences] filter_cong)
qed

lemma search_loop_values:
  "fst (search_loop E n i ts r s) = Inr d \<Longrightarrow>
   list_all (\<lambda>kv. snd kv = py ''found'' \<or> snd kv = py ''not found'' \<or> snd kv = py ''error'') r \<Longrightarrow>
   list_all (\<lambda>kv. snd kv = py ''found'' \<or> snd kv = py ''not found'' \<or> snd kv = py ''error'') d"
proof (induction ts arbitrary: i r s)
  case Nil
  then show ?case by (simp add: py_return_def)
next
  case (Cons t ts)
  obtain st where lbl: "fst (search_term E t (snd (print E (announcement i n t) s))) = Inr st"
    and st: "search_loop E n i (t # ts) r s
        = search_loop E n (Suc i) ts (setitem r t st) (loop_step E n s (i, t))"
    using search_loop_step[OF Cons.prems(1)] by blast
  have "st = py ''found'' \<or> st = py ''not found'' \<or> st = py ''error''"
    using lbl by (rule search_term_label)
  then have "list_all (\<lambda>kv. snd kv = py ''found'' \<or> snd kv = py ''not found'' \<or> snd kv = py ''error'')
          (setitem r t st)"
    using Cons.prems(2) by (induction r t st rule: setitem.induct) auto
  then show ?case
    using Cons.prems(1) unfolding st by (rule Cons.IH[rotated])
qed

lemma search_loop_other_key:
  "fst (search_loop E n i ts r s) = Inr d \<Longrightarrow> t \<notin> set ts \<Longrightarrow> map_of d t = map_of r t"
proof (induction ts arbitrary: i r s)
  case Nil
  then show ?case by (simp add: py_return_def)
next
  case (Cons u ts)
  obtain st where st: "search_loop E n i (u # ts) r s
        = search_loop E n (Suc i) ts (setitem r u st) (loop_step E n s (i, u))"
    using search_loop_step[OF Cons.prems(1)] by blast
  from Cons.prems have "map_of d t = map_of (setitem r u st) t"
    unfolding st by (intro Cons.IH) simp_all
  then show ?case using Cons.prems(2) by (simp add: map_of_setitem)
qed

lemma search_loop_last_wins:
  assumes "fst (search_loop E n i (pre @ t # post) r s) = Inr d"
    and "t \<notin> set post"
  shows "map_option Inr (map_of d t)
       = Some (fst (search_term E t
           (snd (print E (announcement (i + length pre) n t)
              (snd (search_loop E n i pre r s))))))"
proof -
  define s1 where "s1 = snd (search_loop E n i pre r s)"
  have split: "search_loop E n i (pre @ t # post) r s
      = py_bind (search_loop E n i pre r) (\<lambda>r1. search_loop E n (i + length pre) (t # post) r1) s"
    by (simp only: search_loop_append)
  obtain x where x: "fst (search_loop E n i pre r s) = x" by simp
  have "\<exists>r1. x = Inr r1"
  proof (cases x)
    case (Inl e)
    then have "fst (search_loop E n i (pre @ t # post) r s) = Inl e"
      unfolding split using x by (simp add: py_bind_Inl[of "search_loop E n i pre r" s e])
    then show ?thesis using assms(1) by simp
  next
    case (Inr r1)
    then show ?thesis by simp
  qed
  then obtain r1 where r1: "fst (search_loop E n i pre r s) = Inr r1"
    using x by blast
  have eq1: "search_loop E n i (pre @ t # post) r s
      = search_loop E n (i + length pre) (t # post) r1 s1"
    unfolding split s1_def by (rule py_bind_Inr[of "search_loop E n i pre r" s r1, OF r1])
  then have ret: "fst (search_loop E n (i + length pre) (t # post) r1 s1) = Inr d"
    using assms(1) by simp
  obtain st where st: "fst (search_term E t (snd (print E (announcement (i + length pre) n t) s1)))
        = Inr st"
    and eq2: "search_loop E n (i + length pre) (t # post) r1 s1
        = search_loop E n (Suc (i + length pre)) post (setitem r1 t st)
            (loop_step E n s1 (i + length pre, t))"
    using search_loop_step[OF ret] by blast
  have "map_of d t = map_of (setitem r1 t st) t"
    by (rule search_loop_other_key[OF _ assms(2)]) (use ret eq2 in simp)
  then have "map_of d t = Some st"
    by (simp add: map_of_setitem)
  then show ?thesis using st by (simp add: s1_def)
qed

lemma search_loop_frame:
  "keeps (frame (\<lambda>l. announces l \<or> search_line l)) (search_loop E n i ts r)"
proof (induction ts arbitrary: i r)
  case Nil
  then show ?case by (simp add: keeps_return)
next
  case (Cons t ts)
  have "keeps (frame (\<lambda>l. announces l \<or> search_line l)) (search_term E t)"
    by (rule keeps_mono[OF search_term_frame]) simp
  then show ?case
    using Cons.IH by (auto intro!: keeps_intros simp: announces_announcement)
qed

lemma search_loop_flag: "is_logged_in (snd (search_loop E n i ts r s)) = is_logged_in s"
  using search_loop_frame[of E n i ts r] by (simp add: keeps_def frame_def)

lemma search_loop_no_navigating:
  "\<exists>ls. stdout (snd (search_loop E n i ts r s)) = stdout s @ ls
     \<and> list_all (\<lambda>l. l \<noteq> navigating) ls"
proof -
  have "keeps (frame (\<lambda>l. l \<noteq> navigating)) (search_loop E n i ts r)"
    by (rule keeps_mono[OF search_loop_frame])
       (auto dest: announces_not_navigating search_line_not_navigating)
  then show ?thesis by (rule keeps_out)
qed

lemma search_loop_out:
  "fst (search_loop E n i ts r s) = Inr d \<Longrightarrow>
   \<exists>ls. stdout (snd (search_loop E n i ts r s)) = stdout s @ ls
     \<and> filter announces ls = map (\<lambda>(k, t). announcement k n t) (enumerate i ts)"
proof (induction ts arbitrary: i r s)
  case Nil
  then show ?case by (simp add: py_return_def)
next
  case (Cons t ts)
  define line where "line = announcement i n t"
  define s1 where "s1 = s\<lparr>stdout := stdout s @ [line]\<rparr>"
  define s2 where "s2 = snd (search_term E t s1)"
  define s3 where "s3 = s2\<lparr>driver := time_sleep E 1 (driver s2)\<rparr>"
  from search_loop_step[OF Cons.prems]
  obtain st where e: "encodable E (announcement i n t)"
    and step0: "search_loop E n i (t # ts) r s
        = search_loop E n (Suc i) ts (setitem r t st) (loop_step E n s (i, t))"
    by blast
  have step: "search_loop E n i (t # ts) r s = search_loop E n (Suc i) ts (setitem r t st) s3"
    unfolding step0 loop_step_printed[OF e] s3_def s2_def s1_def line_def by (rule refl)
  obtain ls1 where ls1: "stdout s2 = stdout s1 @ ls1" "list_all search_line ls1"
    using search_term_out[of E t s1] unfolding s2_def by blast
  have "fst (search_loop E n (Suc i) ts (setitem r t st) s3) = Inr d"
    using Cons.prems unfolding step .
  from Cons.IH[OF this]
  obtain ls2 where ls2:
    "stdout (snd (search_loop E n (Suc i) ts (setitem r t st) s3)) = stdout s3 @ ls2"
    "filter announces ls2 = map (\<lambda>(k, t). announcement k n t) (enumerate (Suc i) ts)"
    by blast
  have f1: "filter announces ls1 = []"
    using ls1(2) by (auto simp: list_all_iff filter_empty_conv search_line_not_announces)
  have a: "announces line"
    using announces_announcement unfolding line_def by blast
  have "stdout (snd (search_loop E n i (t # ts) r s)) = stdout s @ (line # ls1 @ ls2)"
    unfolding step using ls1(1) ls2(1) by (simp add: s3_def s1_def)
  moreover have "filter announces (line # ls1 @ ls2)
      = map (\<lambda>(k, t). announcement k n t) (enumerate i (t # ts))"
    using a f1 ls2(2) by (simp add: line_def)
  ultimately show ?case by blast
qed

lemma search_loop_returns:
  assumes "\<And>c. stdout_encodes E c"
  shows "\<exists>d. fst (search_loop E n i ts r s) = Inr d"
proof (induction ts arbitrary: i r s)
  case Nil
  then show ?case by (simp add: py_return_def)
next
  case (Cons t ts)
  have e: "encodable E (announcement i n t)"
    using assms by (rule encodable_all)
  obtain st where st: "fst (search_term E t (s\<lparr>stdout := stdout s @ [announcement i n t]\<rparr>)) = Inr st"
    using search_term_returns[OF assms] by blast
  show ?case
    unfolding search_loop_Cons[OF e st] by (rule Cons.IH)
qed

section \<open>Facts about \<open>search_multiple_terms\<close>\<close>

lemma batch_logged_in:
  "is_logged_in s \<Longrightarrow>
   search_multiple_terms E terms s = search_loop E (length terms) 1 terms [] s"
  by (simp add: search_multiple_terms_def py_bind_def read_def)

lemma batch_login_ok:
  "\<not> is_logged_in s \<Longrightarrow> fst (login E s) = Inr True \<Longrightarrow>
   search_multiple_terms E terms s = search_loop E (length terms) 1 terms [] (snd (login E s))"
  by (cases "login E s") (simp add: search_multiple_terms_def py_bind_def read_def)

lemma batch_login_fails:
  "\<not> is_logged_in s \<Longrightarrow> fst (login E s) = Inr False \<Longrightarrow>
   search_multiple_terms E terms s =
     (Inr (error_dict terms),
      (snd (login E s))\<lparr>stdout := stdout (snd (login E s))
         @ [py ''Failed to login. Cannot proceed with searches.'']\<rparr>)"
  using encodable_failed[of E]
  by (cases "login E s")
     (simp add: search_multiple_terms_def py_bind_def read_def print_def py_return_def)

lemma batch_login_raises:
  "\<not> is_logged_in s \<Longrightarrow> fst (login E s) = Inl e \<Longrightarrow>
   search_multiple_terms E terms s = (Inl e, snd (login E s))"
  by (cases "login E s") (simp add: search_multiple_terms_def py_bind_def read_def)

lemma loop_entry_Some:
  "loop_entry E s = Some s0 \<Longrightarrow>
   search_multiple_terms E terms s = search_loop E (length terms) 1 terms [] s0"
  by (auto simp: loop_entry_def batch_logged_in batch_login_ok split: if_splits)

lemma loop_entry_None:
  assumes "loop_entry E s = None" and "fst (search_multiple_terms E terms s) = Inr d"
  shows "\<not> is_logged_in s \<and> fst (login E s) = Inr False \<and> d = error_dict terms"
proof -
  have n: "\<not> is_logged_in s" and t: "fst (login E s) \<noteq> Inr True"
    using assms(1) by (auto simp: loop_entry_def split: if_splits)
  obtain x where x: "fst (login E s) = x" by simp
  have f: "fst (login E s) = Inr False"
  proof (cases x)
    case (Inl e)
    then show ?thesis using assms(2) x batch_login_raises[OF n, of E e terms] by simp
  next
    case (Inr b)
    then show ?thesis using t x by (cases b) simp_all
  qed
  then show ?thesis
    using n assms(2) by (simp add: batch_login_fails)
qed

lemma batch_keys:
  assumes "fst (search_multiple_terms E terms s) = Inr d"
  shows "map fst d = first_occurrences terms"
proof (cases "loop_entry E s")
  case None
  then show ?thesis using loop_entry_None[OF None assms] error_dict_keys[of terms] by simp
next
  case (Some s0)
  then have "fst (search_loop E (length terms) 1 terms [] s0) = Inr d"
    using assms by (simp add: loop_entry_Some)
  from search_loop_keys[OF this] show ?thesis by simp
qed

lemma batch_last_wins:
  assumes "loop_entry E s = Some s0"
    and "fst (search_multiple_terms E (pre @ t # post) s) = Inr d"
    and "t \<notin> set post"
  shows "map_option Inr (map_of d t)
         = Some (occurrence_status E (length (pre @ t # post)) pre t s0)"
proof -
  let ?n = "length (pre @ t # post)"
  have d: "fst (search_loop E ?n 1 (pre @ t # post) [] s0) = Inr d"
    using assms(1,2) by (simp add: loop_entry_Some)
  from search_loop_last_wins[OF d assms(3)] show ?thesis
    by (simp add: occurrence_status_def)
qed

lemma batch_returns:
  assumes "\<And>c. stdout_encodes E c"
  shows "\<exists>d. fst (search_multiple_terms E terms s) = Inr d"
proof (cases "is_logged_in s")
  case True
  then show ?thesis by (simp add: batch_logged_in search_loop_returns[OF assms])
next
  case False
  have h: "encodable E l" for l using assms by (rule encodable_all)
  have "\<exists>b. fst (login E s) = Inr b"
    by (cases rule: login_cases[of E s]) (auto simp add: login_unfold h)
  then obtain b where "fst (login E s) = Inr b" by blast
  then show ?thesis
    using False
    by (cases b) (simp_all add: batch_login_ok batch_login_fails search_loop_returns[OF assms])
qed

lemma count_list_none: "list_all (\<lambda>l. l \<noteq> x) ls \<Longrightarrow> count_list ls x = 0"
  by (induction ls) auto

section \<open>Runs on the scripted browser\<close>

lemma list_all_True: "list_all (\<lambda>c. True) xs"
  by (simp add: list_all_iff)

lemmas run_defs = list_all_True login_def login_body_def login_flow_def try_except_def py_bind_def print_def
  encodable_def ascii_stdout_def
  read_def drv_def sleep_def py_return_def set_is_logged_in_def fake_env_def fresh_def init_def
  signed_in_def Keys_RETURN_def py_def str_in_def sublist_code
  search_term_def search_fetch_def classify_def lower_latin1_def
  fake_site_def Kirjasto_def laakari_def beta_salpaaja_def

lemma fresh_not_logged_in: "\<not> is_logged_in fresh"
  by (simp add: fresh_def init_def)

lemma fake_encodes: "encodable (fake_env link accept site) line"
  by (rule encodable_all) (simp add: fake_env_def)

lemma login_no_link:
  "fst (login_flow (fake_env False True fake_site) fresh) = Inl (TimeoutException (py ''Message: ''))"
  by (simp add: run_defs)

lemma login_no_link_False: "fst (login (fake_env False True fake_site) fresh) = Inr False"
  by (simp add: run_defs)

lemma login_rejected: "fst (login (fake_env True False fake_site) fresh) = Inr False"
  by (simp add: run_defs)

lemma login_accepted: "fst (login (fake_env True True fake_site) fresh) = Inr True"
  by (simp add: run_defs)

lemma login_flow_ascii:
  "fst (login_flow (ascii_stdout (fake_env True True fake_site)) fresh)
   = Inr (py ''https://www.terveysportti.fi/apps/sanakirjat/'')"
  by (simp add: run_defs)

lemma login_ascii: "fst (login (ascii_stdout (fake_env True True fake_site)) fresh) = Inr False"
  by (simp add: run_defs)

lemma login_ascii_out:
  "stdout (snd (login (ascii_stdout (fake_env True True fake_site)) fresh))
   = [py ''Navigating to website...'', py ''Clicking login button...'',
      py ''Waiting for login form...'', py ''Entering credentials...'',
      py ''Submitting login form...'', py ''Waiting for login to complete...'',
      py ''Error during login: '' @ py (''codec can'' @ [CHR 0x27] @ ''t encode character'')]"
  by (simp add: run_defs)

lemma loop_entry_signed_in: "loop_entry E signed_in = Some signed_in"
  by (simp add: loop_entry_def signed_in_def)

lemma Kirjasto_first:
  "occurrence_status (fake_env True True fake_site) n [] Kirjasto signed_in = Inr (py ''not found'')"
  by (simp add: occurrence_status_def run_defs)

lemma Kirjasto_second:
  "occurrence_status (fake_env True True fake_site) n [Kirjasto] Kirjasto signed_in
   = Inr (py ''found'')"
  by (simp add: occurrence_status_def run_defs)

lemma Kirjasto_third:
  "occurrence_status (fake_env True True fake_site) n [Kirjasto, laakari] Kirjasto signed_in
   = Inr (py ''found'')"
  by (simp add: occurrence_status_def run_defs)

lemma two_searches:
  "gets (driver (foldl (loop_step (fake_env True True fake_site) n) signed_in
     (enumerate 1 [Kirjasto, Kirjasto]))) = 2"
  by (simp add: loop_step_def run_defs)


lemma fetch_hidas:
  "fst (search_fetch (fake_env True True fake_site) (py ''hidas'') signed_in)
   = Inl (TimeoutException (py ''Message: timed out''))"
  by (simp add: run_defs)

lemma stdout_signed_in: "stdout signed_in = []"
  by (simp add: signed_in_def fresh_def init_def)

lemma signed_in_logged_in: "is_logged_in signed_in"
  by (simp add: signed_in_def)

lemma fetch_laakari_signed_in:
  "fst (search_fetch (fake_env True True fake_site) laakari signed_in)
   = Inr (py (''<p>Yhteens'' @ [CHR 0xE4] @ '' 305 osumaa</p>''))"
  by (simp add: run_defs)

lemma fetch_laakari_fresh:
  "fst (search_fetch (fake_env False False fake_site) laakari fresh)
   = Inr (py (''<p>Yhteens'' @ [CHR 0xE4] @ '' 305 osumaa</p>''))"
  by (simp add: run_defs)

lemma classify_305:
  "classify lower_latin1 (py (''<p>Yhteens'' @ [CHR 0xE4] @ '' 305 osumaa</p>'')) = py ''found''"
  by (simp add: classify_def str_in_def sublist_code py_def)

lemma fake_lower: "str_lower (fake_env link accept site) = lower_latin1"
  by (simp add: fake_env_def)

lemma batch_three:
  "fst (search_multiple_terms (fake_env True True fake_site) [Kirjasto, laakari, Kirjasto] signed_in)
   = Inr [(Kirjasto, py ''found''), (laakari, py ''found'')]"
  unfolding batch_logged_in[OF signed_in_logged_in] by (simp add: run_defs)

lemma batch_two:
  "fst (search_multiple_terms (fake_env True True fake_site) [Kirjasto, Kirjasto] signed_in)
   = Inr [(Kirjasto, py ''found'')]"
  unfolding batch_logged_in[OF signed_in_logged_in] by (simp add: run_defs)

lemma ascii_announcement:
  "list_all (\<lambda>c. c < 128) (announcement i n t) = list_all (\<lambda>c. c < 128) t"
  using encodable_announcement[of "ascii_stdout (fake_env True True fake_site)" i n t]
  by (simp add: encodable_def ascii_stdout_def)

lemma fetch_beta:
  "fst (search_fetch (ascii_stdout (fake_env True True fake_site)) beta_salpaaja signed_in)
   = Inl (TimeoutException (py ''Message: timed out''))"
  by (simp add: run_defs)

lemma fetch_rikki:
  "fst (search_fetch (ascii_stdout (fake_env True True fake_site)) (py ''rikki'') signed_in)
   = Inl (OtherException (py (''Message: ikkunaa ei l'' @ [CHR 0xF6] @ ''ydy'')))"
  by (simp add: run_defs)

lemma term_beta_utf8:
  "fst (search_term (fake_env True True fake_site) beta_salpaaja signed_in) = Inr (py ''error'')"
  by (simp add: run_defs)

lemma term_beta:
  "fst (search_term (ascii_stdout (fake_env True True fake_site)) beta_salpaaja signed_in)
   = Inl (OtherException (py (''codec can'' @ [CHR 0x27] @ ''t encode character'')))"
  by (simp add: run_defs)

lemma term_rikki:
  "fst (search_term (ascii_stdout (fake_env True True fake_site)) (py ''rikki'') signed_in)
   = Inl (OtherException (py (''codec can'' @ [CHR 0x27] @ ''t encode character'')))"
  by (simp add: run_defs)

lemma batch_rikki:
  "fst (search_multiple_terms (ascii_stdout (fake_env True True fake_site)) [py ''rikki''] signed_in)
   = Inl (OtherException (py (''codec can'' @ [CHR 0x27] @ ''t encode character'')))"
  unfolding batch_logged_in[OF signed_in_logged_in] by (simp add: run_defs ascii_announcement)

lemma batch_beta:
  "search_multiple_terms (ascii_stdout (fake_env True True fake_site)) [beta_salpaaja] signed_in
   = (Inl (OtherException (py (''codec can'' @ [CHR 0x27] @ ''t encode character''))), signed_in)"
  unfolding batch_logged_in[OF signed_in_logged_in] by (simp add: run_defs ascii_announcement)

section \<open>The classification chain: rule order and default\<close>

text \<open>
  C1: a page that contains the phrase "Ei tuloksia" together with both markers
  "Yhteens\"a" and "osumaa" is classified "not found": the first rule wins over the
  second.
\<close>

theorem classify_no_results_first:
  assumes "str_in (py ''Ei tuloksia'') c"
    and "str_in (py (''Yhteens'' @ [CHR 0xE4])) c"
    and "str_in (py ''osumaa'') c"
  shows "classify lower c = py ''not found''"
  using assms(1) by (simp add: classify_def)

theorem classify_no_results_first_witness:
  "str_in (py ''Ei tuloksia'') (py (''Ei tuloksia. Yhteens'' @ [CHR 0xE4] @ '' 0 osumaa''))
   \<and> str_in (py (''Yhteens'' @ [CHR 0xE4])) (py (''Ei tuloksia. Yhteens'' @ [CHR 0xE4] @ '' 0 osumaa''))
   \<and> str_in (py ''osumaa'') (py (''Ei tuloksia. Yhteens'' @ [CHR 0xE4] @ '' 0 osumaa''))
   \<and> classify lower_latin1 (py (''Ei tuloksia. Yhteens'' @ [CHR 0xE4] @ '' 0 osumaa''))
       = py ''not found''"
proof -
  let ?c = "py (''Ei tuloksia. Yhteens'' @ [CHR 0xE4] @ '' 0 osumaa'')"
  have h1: "str_in (py ''Ei tuloksia'') ?c"
    by (simp add: str_in_def py_def sublist_code)
  have h2: "str_in (py (''Yhteens'' @ [CHR 0xE4])) ?c"
    by (simp add: str_in_def py_def sublist_code)
  have h3: "str_in (py ''osumaa'') ?c"
    by (simp add: str_in_def py_def sublist_code)
  from classify_no_results_first[where c = ?c and lower = lower_latin1, OF h1 h2 h3] h1 h2 h3
  show ?thesis by blast
qed

text \<open>
  C4: a page on which neither the first rule ("Ei tuloksia") nor the second (both
  "Yhteens\"a" and "osumaa") matches, and which contains the section header
  "L\"a\"aketieteen termit" or, once lowered, the word "termit", is classified "found".
\<close>

theorem classify_section_header:
  assumes "\<not> str_in (py ''Ei tuloksia'') c"
    and "\<not> (str_in (py (''Yhteens'' @ [CHR 0xE4])) c \<and> str_in (py ''osumaa'') c)"
    and "str_in (py (''L'' @ [CHR 0xE4, CHR 0xE4] @ ''ketieteen termit'')) c
         \<or> str_in (py ''termit'') (lower c)"
  shows "classify lower c = py ''found''"
  using assms by (simp add: classify_def)

theorem classify_section_header_witness:
  "\<not> str_in (py ''Ei tuloksia'') (py ''<h2>HAMMASTERMIT</h2>'')
   \<and> \<not> (str_in (py (''Yhteens'' @ [CHR 0xE4])) (py ''<h2>HAMMASTERMIT</h2>'')
          \<and> str_in (py ''osumaa'') (py ''<h2>HAMMASTERMIT</h2>''))
   \<and> str_in (py ''termit'') (lower_latin1 (py ''<h2>HAMMASTERMIT</h2>''))
   \<and> classify lower_latin1 (py ''<h2>HAMMASTERMIT</h2>'') = py ''found''"
proof -
  let ?c = "py ''<h2>HAMMASTERMIT</h2>''"
  have h1: "\<not> str_in (py ''Ei tuloksia'') ?c"
    by (simp add: str_in_def py_def sublist_code)
  have h2: "\<not> (str_in (py (''Yhteens'' @ [CHR 0xE4])) ?c \<and> str_in (py ''osumaa'') ?c)"
    by (simp add: str_in_def py_def sublist_code)
  have h3: "str_in (py ''termit'') (lower_latin1 ?c)"
    by (simp add: str_in_def py_def sublist_code lower_latin1_def)
  from classify_section_header[where c = ?c and lower = lower_latin1, OF h1 h2 disjI2[OF h3]] h1 h2 h3
  show ?thesis by blast
qed

text \<open>
  C5: a page with none of the markers (not "Ei tuloksia"; not both "Yhteens\"a" and
  "osumaa"; neither "L\"a\"aketieteen termit" nor, lowered, "termit"; lowered, neither
  "ei tuloksia" nor "ei l\"oytynyt") is classified "found".
\<close>

theorem classify_default_found:
  assumes "\<not> str_in (py ''Ei tuloksia'') c"
    and "\<not> (str_in (py (''Yhteens'' @ [CHR 0xE4])) c \<and> str_in (py ''osumaa'') c)"
    and "\<not> str_in (py (''L'' @ [CHR 0xE4, CHR 0xE4] @ ''ketieteen termit'')) c"
    and "\<not> str_in (py ''termit'') (lower c)"
    and "\<not> str_in (py ''ei tuloksia'') (lower c)"
    and "\<not> str_in (py (''ei l'' @ [CHR 0xF6] @ ''ytynyt'')) (lower c)"
  shows "classify lower c = py ''found''"
  using assms by (simp add: classify_def)

theorem classify_default_found_witness:
  "\<not> str_in (py ''Ei tuloksia'') (py ''<html>lentokone</html>'')
   \<and> \<not> (str_in (py (''Yhteens'' @ [CHR 0xE4])) (py ''<html>lentokone</html>'')
          \<and> str_in (py ''osumaa'') (py ''<html>lentokone</html>''))
   \<and> \<not> str_in (py (''L'' @ [CHR 0xE4, CHR 0xE4] @ ''ketieteen termit'')) (py ''<html>lentokone</html>'')
   \<and> \<not> str_in (py ''termit'') (lower_latin1 (py ''<html>lentokone</html>''))
   \<and> \<not> str_in (py ''ei tuloksia'') (lower_latin1 (py ''<html>lentokone</html>''))
   \<and> \<not> str_in (py (''ei l'' @ [CHR 0xF6] @ ''ytynyt'')) (lower_latin1 (py ''<html>lentokone</html>''))
   \<and> classify lower_latin1 (py ''<html>lentokone</html>'') = py ''found''"
proof -
  let ?c = "py ''<html>lentokone</html>''"
  have h1: "\<not> str_in (py ''Ei tuloksia'') ?c"
    by (simp add: str_in_def py_def sublist_code)
  have h2: "\<not> (str_in (py (''Yhteens'' @ [CHR 0xE4])) ?c \<and> str_in (py ''osumaa'') ?c)"
    by (simp add: str_in_def py_def sublist_code)
  have h3: "\<not> str_in (py (''L'' @ [CHR 0xE4, CHR 0xE4] @ ''ketieteen termit'')) ?c"
    by (simp add: str_in_def py_def sublist_code)
  have h4: "\<not> str_in (py ''termit'') (lower_latin1 ?c)"
    by (simp add: str_in_def py_def sublist_code lower_latin1_def)
  have h5: "\<not> str_in (py ''ei tuloksia'') (lower_latin1 ?c)"
    by (simp add: str_in_def py_def sublist_code lower_latin1_def)
  have h6: "\<not> str_in (py (''ei l'' @ [CHR 0xF6] @ ''ytynyt'')) (lower_latin1 ?c)"
    by (simp add: str_in_def py_def sublist_code lower_latin1_def)
  from classify_default_found[where c = ?c and lower = lower_latin1, OF h1 h2 h3 h4 h5 h6] h1 h2 h3 h4 h5 h6
  show ?thesis by blast
qed

section \<open>A failed login gives every term the label "error"\<close>



section \<open>One entry per distinct term, the last occurrence wins\<close>

text \<open>
  C3: every dictionary that \<open>search_multiple_terms\<close> returns has exactly one entry per
  distinct input term; its keys stand in the order in which the terms first occur in
  the input; and for the last occurrence of a term (the terms \<open>pre\<close> before it, the terms
  \<open>post\<close> after it, none of them equal to it) the value recorded is the status that the
  loop obtained for that occurrence, or "error" when the login failed.
\<close>

theorem search_multiple_terms_one_entry_per_term:
  assumes "fst (search_multiple_terms E terms s) = Inr d"
  shows "map fst d = first_occurrences terms
     \<and> distinct (map fst d) \<and> set (map fst d) = set terms \<and> length d = card (set terms)
     \<and> (\<forall>pre t post. terms = pre @ t # post \<and> t \<notin> set post \<longrightarrow>
          (case loop_entry E s of
             None \<Rightarrow> map_of d t = Some (py ''error'')
           | Some s0 \<Rightarrow> map_option Inr (map_of d t)
                        = Some (occurrence_status E (length terms) pre t s0)))"
proof -
  have keys: "map fst d = first_occurrences terms"
    using assms by (rule batch_keys)
  have len: "length d = card (set terms)"
    using length_first_occurrences[of terms] keys by (metis length_map)
  have last: "case loop_entry E s of
             None \<Rightarrow> map_of d t = Some (py ''error'')
           | Some s0 \<Rightarrow> map_option Inr (map_of d t)
                        = Some (occurrence_status E (length terms) pre t s0)"
    if "terms = pre @ t # post" "t \<notin> set post" for pre t post
  proof (cases "loop_entry E s")
    case None
    have "d = error_dict terms"
      using loop_entry_None[OF None assms] by simp
    then show ?thesis using None that(1) by (simp add: error_dict_lookup)
  next
    case (Some s0)
    then show ?thesis
      using batch_last_wins[OF Some _ that(2), of pre d] assms that(1) by simp
  qed
  show ?thesis
    using keys len last
    by (auto simp: distinct_first_occurrences set_first_occurrences
        simp del: set_map)
qed

theorem search_multiple_terms_one_entry_per_term_witness:
  "fst (search_multiple_terms (fake_env True True fake_site)
          [Kirjasto, laakari, Kirjasto] signed_in)
     = Inr [(Kirjasto, py ''found''), (laakari, py ''found'')]
   \<and> map fst [(Kirjasto, py ''found''), (laakari, py ''found'')]
       = first_occurrences [Kirjasto, laakari, Kirjasto]
   \<and> length [(Kirjasto, py ''found''), (laakari, py ''found'')]
       = card (set [Kirjasto, laakari, Kirjasto])
   \<and> occurrence_status (fake_env True True fake_site) 3 [] Kirjasto signed_in
       = Inr (py ''not found'')
   \<and> occurrence_status (fake_env True True fake_site) 3 [Kirjasto, laakari] Kirjasto signed_in
       = Inr (py ''found'')
   \<and> map_option Inr (map_of [(Kirjasto, py ''found''), (laakari, py ''found'')] Kirjasto)
       = Some (occurrence_status (fake_env True True fake_site) 3
                 [Kirjasto, laakari] Kirjasto signed_in)"
proof -
  let ?E = "fake_env True True fake_site"
  let ?ts = "[Kirjasto, laakari, Kirjasto]"
  let ?d = "[(Kirjasto, py ''found''), (laakari, py ''found'')]"
  note t = search_multiple_terms_one_entry_per_term[of ?E ?ts signed_in ?d, OF batch_three]
  note keys = t[THEN conjunct1]
  note len = t[THEN conjunct2, THEN conjunct2, THEN conjunct2, THEN conjunct1]
  note last = t[THEN conjunct2, THEN conjunct2, THEN conjunct2, THEN conjunct2]
  have "?ts = [Kirjasto, laakari] @ Kirjasto # [] \<and> Kirjasto \<notin> set []"
    by simp
  with last have "case loop_entry ?E signed_in of
             None \<Rightarrow> map_of ?d Kirjasto = Some (py ''error'')
           | Some s0 \<Rightarrow> map_option Inr (map_of ?d Kirjasto)
                        = Some (occurrence_status ?E (length ?ts) [Kirjasto, laakari] Kirjasto s0)"
    by (elim allE impE)
  then have v: "map_option Inr (map_of ?d Kirjasto)
      = Some (occurrence_status ?E 3 [Kirjasto, laakari] Kirjasto signed_in)"
    by (simp add: loop_entry_signed_in Kirjasto_third)
  show ?thesis
    using batch_three keys len Kirjasto_first[of 3] Kirjasto_third[of 3] v by (intro conjI)
qed

section \<open>Every occurrence is searched\<close>

text \<open>
  C10: when the loop is entered (the session is logged in, or \<open>login\<close> has just
  succeeded) and \<open>search_multiple_terms\<close> returns a dictionary, the loop has run its
  body once for each element of the input, duplicates included: the state returned is
  the loop body folded over all the numbered input terms, and the searches announced
  are one per input term, numbered from 1.  The dictionary returned has one entry per
  distinct term, and the value of a term is the status obtained for its last
  occurrence.
\<close>

theorem search_multiple_terms_searches_every_occurrence:
  assumes "loop_entry E s = Some s0"
    and "fst (search_multiple_terms E terms s) = Inr d"
  shows "snd (search_multiple_terms E terms s)
         = foldl (loop_step E (length terms)) s0 (enumerate 1 terms)
     \<and> (\<exists>ls. stdout (snd (search_multiple_terms E terms s)) = stdout s0 @ ls
          \<and> filter announces ls
              = map (\<lambda>(k, t). announcement k (length terms) t) (enumerate 1 terms))
     \<and> length d = card (set terms)
     \<and> (\<forall>pre t post. terms = pre @ t # post \<and> t \<notin> set post \<longrightarrow>
          map_option Inr (map_of d t) = Some (occurrence_status E (length terms) pre t s0))"
proof -
  note eq = loop_entry_Some[OF assms(1), of terms]
  have ret: "fst (search_loop E (length terms) 1 terms [] s0) = Inr d"
    using assms(2) by (simp only: eq)
  have "map fst d = first_occurrences terms"
    using assms(2) by (rule batch_keys)
  then have len: "length d = card (set terms)"
    using length_first_occurrences[of terms] by (metis length_map)
  have out: "\<exists>ls. stdout (snd (search_multiple_terms E terms s)) = stdout s0 @ ls
          \<and> filter announces ls
              = map (\<lambda>(k, t). announcement k (length terms) t) (enumerate 1 terms)"
    unfolding eq using ret by (rule search_loop_out)
  have st: "snd (search_multiple_terms E terms s)
         = foldl (loop_step E (length terms)) s0 (enumerate 1 terms)"
    unfolding eq using ret by (rule search_loop_state)
  have last: "map_option Inr (map_of d t) = Some (occurrence_status E (length terms) pre t s0)"
    if "terms = pre @ t # post" "t \<notin> set post" for pre t post
    using batch_last_wins[OF assms(1) _ that(2), of pre d] assms(2) that(1) by simp
  show ?thesis
    using st out len last by blast
qed

theorem search_multiple_terms_searches_every_occurrence_witness:
  "loop_entry (fake_env True True fake_site) signed_in = Some signed_in
   \<and> fst (search_multiple_terms (fake_env True True fake_site) [Kirjasto, Kirjasto] signed_in)
       = Inr [(Kirjasto, py ''found'')]
   \<and> length [(Kirjasto, py ''found'')] = card (set [Kirjasto, Kirjasto])
   \<and> occurrence_status (fake_env True True fake_site) 2 [] Kirjasto signed_in
       = Inr (py ''not found'')
   \<and> occurrence_status (fake_env True True fake_site) 2 [Kirjasto] Kirjasto signed_in
       = Inr (py ''found'')
   \<and> map_option Inr (map_of [(Kirjasto, py ''found'')] Kirjasto)
       = Some (occurrence_status (fake_env True True fake_site) 2 [Kirjasto] Kirjasto signed_in)
   \<and> (\<exists>ls. stdout (snd (search_multiple_terms (fake_env True True fake_site)
                  [Kirjasto, Kirjasto] signed_in)) = stdout signed_in @ ls
          \<and> filter announces ls = [announcement 1 2 Kirjasto, announcement 2 2 Kirjasto])
   \<and> gets (driver (snd (search_multiple_terms (fake_env True True fake_site)
                  [Kirjasto, Kirjasto] signed_in))) = 2"
proof -
  let ?E = "fake_env True True fake_site"
  let ?ts = "[Kirjasto, Kirjasto]"
  let ?d = "[(Kirjasto, py ''found'')]"
  have e: "loop_entry ?E signed_in = Some signed_in"
    by (rule loop_entry_signed_in)
  note t = search_multiple_terms_searches_every_occurrence[of ?E signed_in signed_in ?ts ?d,
      OF e batch_two]
  note st = t[THEN conjunct1]
  note len = t[THEN conjunct2, THEN conjunct2, THEN conjunct1]
  note last = t[THEN conjunct2, THEN conjunct2, THEN conjunct2]
  obtain ls where out: "stdout (snd (search_multiple_terms ?E ?ts signed_in)) = stdout signed_in @ ls"
    and ann: "filter announces ls
         = map (\<lambda>(k, t). announcement k (length ?ts) t) (enumerate 1 ?ts)"
    using t[THEN conjunct2, THEN conjunct1] by (elim exE conjE)
  have "?ts = [Kirjasto] @ Kirjasto # [] \<and> Kirjasto \<notin> set []"
    by simp
  with last have "map_option Inr (map_of ?d Kirjasto)
      = Some (occurrence_status ?E (length ?ts) [Kirjasto] Kirjasto signed_in)"
    by (elim allE impE)
  then have v: "map_option Inr (map_of ?d Kirjasto)
      = Some (occurrence_status ?E 2 [Kirjasto] Kirjasto signed_in)"
    by (simp add: Kirjasto_second)
  have a: "filter announces ls = [announcement 1 2 Kirjasto, announcement 2 2 Kirjasto]"
    using ann by (simp add: numeral_2_eq_2)
  have o: "\<exists>ls. stdout (snd (search_multiple_terms ?E ?ts signed_in)) = stdout signed_in @ ls
          \<and> filter announces ls = [announcement 1 2 Kirjasto, announcement 2 2 Kirjasto]"
    using out a by (intro exI[of _ ls] conjI)
  have g: "gets (driver (snd (search_multiple_terms ?E ?ts signed_in))) = 2"
    unfolding st by (rule two_searches)
  show ?thesis
    using e batch_two len Kirjasto_first[of 2] Kirjasto_second[of 2] v o g by (intro conjI)
qed

section \<open>The login flag\<close>

text \<open>
  C6: a new scraper is not logged in.  When \<open>login\<close> returns true, the login flow ran
  without an exception and ended on a URL that contains "sanakirjat".  The flag after
  \<open>login\<close> is set exactly when it was set before or \<open>login\<close> returned true, so after a
  failed \<open>login\<close>, by an exception or by an unexpected URL, a flag that was false is
  still false.  \<open>search_term\<close> and \<open>close\<close> leave the flag alone, and
  \<open>search_multiple_terms\<close> changes it only through its call of \<open>login\<close>.
\<close>

theorem login_is_the_only_way_in:
  "\<not> is_logged_in (init em pw chrome out)
   \<and> (fst (login E s) = Inr True
        \<longrightarrow> (\<exists>cur. fst (login_flow E s) = Inr cur \<and> str_in (py ''sanakirjat'') cur))
   \<and> (is_logged_in (snd (login E s)) \<longleftrightarrow> is_logged_in s \<or> fst (login E s) = Inr True)
   \<and> (is_logged_in (snd (search_term E t s)) \<longleftrightarrow> is_logged_in s)
   \<and> (is_logged_in (snd (close E s)) \<longleftrightarrow> is_logged_in s)
   \<and> (is_logged_in (snd (search_multiple_terms E terms s))
        \<longleftrightarrow> is_logged_in s \<or> (\<not> is_logged_in s \<and> fst (login E s) = Inr True))"
proof -
  have i: "\<not> is_logged_in (init em pw chrome out)"
    by (simp add: init_def)
  have c: "is_logged_in (snd (close E s)) \<longleftrightarrow> is_logged_in s"
    by (simp add: close_def drv_def split: prod.splits)
  have l: "fst (login E s) = Inr True
        \<longrightarrow> (\<exists>cur. fst (login_flow E s) = Inr cur \<and> str_in (py ''sanakirjat'') cur)"
    using login_True_iff[of E s] by blast
  have b: "is_logged_in (snd (search_multiple_terms E terms s))
        \<longleftrightarrow> is_logged_in s \<or> (\<not> is_logged_in s \<and> fst (login E s) = Inr True)"
  proof (cases "is_logged_in s")
    case True
    then show ?thesis by (simp add: batch_logged_in search_loop_flag)
  next
    case False
    obtain x where x: "fst (login E s) = x" by simp
    show ?thesis
    proof (cases x)
      case (Inl e)
      then show ?thesis
        using False x login_flag[of E s] by (simp add: batch_login_raises[OF False, of E e])
    next
      case (Inr ok)
      show ?thesis
      proof (cases ok)
        case True
        then have t: "fst (login E s) = Inr True" using x Inr by simp
        show ?thesis
          using login_flag[of E s] t by (simp add: batch_login_ok[OF False t] search_loop_flag)
      next
        case no: False
        then have f: "fst (login E s) = Inr False" using x Inr by simp
        show ?thesis
          using login_flag[of E s] f False by (simp add: batch_login_fails[OF False f])
      qed
    qed
  qed
  show ?thesis
    using i l c b login_flag[of E s] search_term_flag[of E t s]
    by (intro conjI)
qed

theorem login_is_the_only_way_in_witness:
  "\<not> is_logged_in fresh
   \<and> fst (login_flow (fake_env False True fake_site) fresh)
       = Inl (TimeoutException (py ''Message: ''))
   \<and> fst (login (fake_env False True fake_site) fresh) = Inr False
   \<and> \<not> is_logged_in (snd (login (fake_env False True fake_site) fresh))
   \<and> fst (login (fake_env True False fake_site) fresh) = Inr False
   \<and> \<not> is_logged_in (snd (login (fake_env True False fake_site) fresh))
   \<and> fst (login (fake_env True True fake_site) fresh) = Inr True
   \<and> (\<exists>cur. fst (login_flow (fake_env True True fake_site) fresh) = Inr cur
          \<and> str_in (py ''sanakirjat'') cur)
   \<and> is_logged_in (snd (login (fake_env True True fake_site) fresh))
   \<and> fst (login_flow (ascii_stdout (fake_env True True fake_site)) fresh)
       = Inr (py ''https://www.terveysportti.fi/apps/sanakirjat/'')
   \<and> fst (login (ascii_stdout (fake_env True True fake_site)) fresh) = Inr False
   \<and> \<not> is_logged_in (snd (login (ascii_stdout (fake_env True True fake_site)) fresh))"
proof -
  note a = login_is_the_only_way_in[of "py ''user@example.org''" "py ''secret''"
      "\<lparr>location = [], typed = [], source = [], gets = 0\<rparr>" "[]"
      "fake_env False True fake_site" fresh Kirjasto "[Kirjasto]"]
  note b = login_is_the_only_way_in[of "py ''user@example.org''" "py ''secret''"
      "\<lparr>location = [], typed = [], source = [], gets = 0\<rparr>" "[]"
      "fake_env True False fake_site" fresh Kirjasto "[Kirjasto]"]
  note c = login_is_the_only_way_in[of "py ''user@example.org''" "py ''secret''"
      "\<lparr>location = [], typed = [], source = [], gets = 0\<rparr>" "[]"
      "fake_env True True fake_site" fresh Kirjasto "[Kirjasto]"]
  note d = login_is_the_only_way_in[of "py ''user@example.org''" "py ''secret''"
      "\<lparr>location = [], typed = [], source = [], gets = 0\<rparr>" "[]"
      "ascii_stdout (fake_env True True fake_site)" fresh Kirjasto "[Kirjasto]"]
  have n: "\<not> is_logged_in fresh"
    unfolding fresh_def by (rule a[THEN conjunct1])
  have a2: "\<not> is_logged_in (snd (login (fake_env False True fake_site) fresh))"
    using a[THEN conjunct2, THEN conjunct2, THEN conjunct1] login_no_link_False n by simp
  have b2: "\<not> is_logged_in (snd (login (fake_env True False fake_site) fresh))"
    using b[THEN conjunct2, THEN conjunct2, THEN conjunct1] login_rejected n by simp
  have c1: "\<exists>cur. fst (login_flow (fake_env True True fake_site) fresh) = Inr cur
          \<and> str_in (py ''sanakirjat'') cur"
    using c[THEN conjunct2, THEN conjunct1] login_accepted by (elim impE)
  have c2: "is_logged_in (snd (login (fake_env True True fake_site) fresh))"
    using c[THEN conjunct2, THEN conjunct2, THEN conjunct1] login_accepted by simp
  have d2: "\<not> is_logged_in (snd (login (ascii_stdout (fake_env True True fake_site)) fresh))"
    using d[THEN conjunct2, THEN conjunct2, THEN conjunct1] login_ascii n by simp
  show ?thesis
    using n login_no_link login_no_link_False a2 login_rejected b2 login_accepted c1 c2
      login_flow_ascii login_ascii d2
    by (intro conjI)
qed

section \<open>The login check at the head of a batch\<close>

text \<open>
  C7: \<open>search_multiple_terms\<close> begins with \<open>ensure_authenticated\<close> as the specification
  words it.  On a logged-in session that check returns true at once and leaves the
  state as it is; otherwise it is one call of \<open>login\<close>.  Once it has returned true, a
  second check returns true and changes nothing.  In what is printed, the first line
  of the login flow occurs once when the session was not logged in and not at all
  when it was, for the check and for the whole batch.
\<close>

theorem ensure_authenticated_logs_in_once:
  "search_multiple_terms E terms =
     py_bind (ensure_authenticated E) (\<lambda>ok.
       if \<not> ok then
         py_bind (print E (py ''Failed to login. Cannot proceed with searches.'')) (\<lambda>_.
         py_return (error_dict terms))
       else search_loop E (length terms) 1 terms [])
   \<and> ensure_authenticated E s = (if is_logged_in s then (Inr True, s) else login E s)
   \<and> (fst (ensure_authenticated E s) = Inr True \<longrightarrow>
        ensure_authenticated E (snd (ensure_authenticated E s))
          = (Inr True, snd (ensure_authenticated E s)))
   \<and> (\<exists>ls. stdout (snd (ensure_authenticated E s)) = stdout s @ ls
          \<and> count_list ls navigating = (if is_logged_in s then 0 else 1))
   \<and> (\<exists>ls. stdout (snd (search_multiple_terms E terms s)) = stdout s @ ls
          \<and> count_list ls navigating = (if is_logged_in s then 0 else 1))"
proof -
  have ens: "ensure_authenticated E s = (if is_logged_in s then (Inr True, s) else login E s)"
    for s :: "'a scraper"
    by (simp add: ensure_authenticated_def py_bind_def read_def py_return_def)
  have refine: "search_multiple_terms E terms =
     py_bind (ensure_authenticated E) (\<lambda>ok.
       if \<not> ok then
         py_bind (print E (py ''Failed to login. Cannot proceed with searches.'')) (\<lambda>_.
         py_return (error_dict terms))
       else search_loop E (length terms) 1 terms [])"
  proof (rule ext)
    fix s :: "'a scraper"
    show "search_multiple_terms E terms s =
     py_bind (ensure_authenticated E) (\<lambda>ok.
       if \<not> ok then
         py_bind (print E (py ''Failed to login. Cannot proceed with searches.'')) (\<lambda>_.
         py_return (error_dict terms))
       else search_loop E (length terms) 1 terms []) s"
      by (cases "is_logged_in s")
         (simp_all add: search_multiple_terms_def ensure_authenticated_def py_bind_def
            read_def py_return_def)
  qed
  have idem: "ensure_authenticated E (snd (ensure_authenticated E s))
          = (Inr True, snd (ensure_authenticated E s))"
    if "fst (ensure_authenticated E s) = Inr True"
    using that login_flag[of E s] by (simp add: ens split: if_splits)
  obtain ll where ll: "stdout (snd (login E s)) = stdout s @ navigating # ll"
    "list_all (\<lambda>l. l \<noteq> navigating) ll"
    using login_out by blast
  have one: "\<exists>ls. stdout (snd (ensure_authenticated E s)) = stdout s @ ls
          \<and> count_list ls navigating = (if is_logged_in s then 0 else 1)"
  proof (cases "is_logged_in s")
    case True
    then show ?thesis by (simp add: ens)
  next
    case False
    have "count_list (navigating # ll) navigating = 1"
      using ll(2) by (simp add: count_list_none)
    then show ?thesis using False ll(1) by (auto simp add: ens)
  qed
  have batch: "\<exists>ls. stdout (snd (search_multiple_terms E terms s)) = stdout s @ ls
          \<and> count_list ls navigating = (if is_logged_in s then 0 else 1)"
  proof (cases "is_logged_in s")
    case True
    obtain ls where "stdout (snd (search_loop E (length terms) 1 terms [] s)) = stdout s @ ls"
      "list_all (\<lambda>l. l \<noteq> navigating) ls"
      using search_loop_no_navigating by blast
    then show ?thesis using True by (auto simp add: batch_logged_in count_list_none)
  next
    case False
    obtain x where x: "fst (login E s) = x" by simp
    show ?thesis
    proof (cases x)
      case (Inl e)
      have "count_list (navigating # ll) navigating = 1"
        using ll(2) by (simp add: count_list_none)
      moreover have "stdout (snd (search_multiple_terms E terms s)) = stdout s @ (navigating # ll)"
        using ll(1) x Inl by (simp add: batch_login_raises[OF False, of E e])
      ultimately show ?thesis using False by auto
    next
      case (Inr b)
      show ?thesis
      proof (cases b)
        case True
        then have ok: "fst (login E s) = Inr True" using x Inr by simp
        obtain ls where ls:
          "stdout (snd (search_loop E (length terms) 1 terms [] (snd (login E s))))
             = stdout (snd (login E s)) @ ls"
          "list_all (\<lambda>l. l \<noteq> navigating) ls"
          using search_loop_no_navigating by blast
        have "count_list (navigating # ll @ ls) navigating = 1"
          using ll(2) ls(2) by (simp add: count_list_none)
        moreover have "stdout (snd (search_multiple_terms E terms s))
            = stdout s @ (navigating # ll @ ls)"
          using ls(1) ll(1) by (simp add: batch_login_ok[OF False ok])
        ultimately show ?thesis using False by auto
      next
        case no: False
        then have f: "fst (login E s) = Inr False" using x Inr by simp
        have "py ''Failed to login. Cannot proceed with searches.'' \<noteq> navigating"
          by (simp add: navigating_def py_def)
        then have "count_list
            (navigating # ll @ [py ''Failed to login. Cannot proceed with searches.''])
            navigating = 1"
          using ll(2) by (simp add: count_list_none)
        moreover have "stdout (snd (search_multiple_terms E terms s))
            = stdout s
              @ (navigating # ll @ [py ''Failed to login. Cannot proceed with searches.''])"
          using ll(1) by (simp add: batch_login_fails[OF False f])
        ultimately show ?thesis using False by auto
      qed
    qed
  qed
  show ?thesis
    using refine ens[of s] idem one batch by blast
qed

theorem ensure_authenticated_logs_in_once_witness:
  "fst (ensure_authenticated (fake_env True True fake_site) fresh) = Inr True
   \<and> ensure_authenticated (fake_env True True fake_site)
        (snd (ensure_authenticated (fake_env True True fake_site) fresh))
       = (Inr True, snd (ensure_authenticated (fake_env True True fake_site) fresh))
   \<and> (\<exists>ls. stdout (snd (search_multiple_terms (fake_env True True fake_site) [laakari] fresh))
              = stdout fresh @ ls
          \<and> count_list ls navigating = 1)
   \<and> (\<exists>ls. stdout (snd (search_multiple_terms (fake_env True True fake_site) [laakari] signed_in))
              = stdout signed_in @ ls
          \<and> count_list ls navigating = 0)"
proof -
  let ?E = "fake_env True True fake_site"
  note a = ensure_authenticated_logs_in_once[of ?E "[laakari]" fresh]
  note b = ensure_authenticated_logs_in_once[of ?E "[laakari]" signed_in]
  have "ensure_authenticated ?E fresh = login ?E fresh"
    using a[THEN conjunct2, THEN conjunct1] fresh_not_logged_in by simp
  then have h: "fst (ensure_authenticated ?E fresh) = Inr True"
    using login_accepted by simp
  have i: "ensure_authenticated ?E (snd (ensure_authenticated ?E fresh))
       = (Inr True, snd (ensure_authenticated ?E fresh))"
    using a[THEN conjunct2, THEN conjunct2, THEN conjunct1] h by (elim impE)
  have o1: "\<exists>ls. stdout (snd (search_multiple_terms ?E [laakari] fresh)) = stdout fresh @ ls
          \<and> count_list ls navigating = 1"
    using a[THEN conjunct2, THEN conjunct2, THEN conjunct2, THEN conjunct2]
      fresh_not_logged_in by simp
  have o2: "\<exists>ls. stdout (snd (search_multiple_terms ?E [laakari] signed_in)) = stdout signed_in @ ls
          \<and> count_list ls navigating = 0"
    using b[THEN conjunct2, THEN conjunct2, THEN conjunct2, THEN conjunct2]
      signed_in_logged_in by simp
  show ?thesis
    using h i o1 o2 by (intro conjI)
qed

section \<open>An exception that leaves the handler\<close>

text \<open>
  C8: not every exception is turned into a result.  The handlers of \<open>search_term\<close>
  print a line that holds the term and, in the general handler, the text of the
  exception; when standard output cannot encode that line, \<open>print\<close> raises inside the
  handler and the \<open>UnicodeEncodeError\<close> leaves \<open>search_term\<close>, and with it
  \<open>search_multiple_terms\<close>.  On a standard output that encodes ASCII only: the search
  for \<open>beta_salpaaja\<close> times out and \<open>search_term\<close> raises instead of returning "error";
  the search for "rikki" fails with a message that has the letter U+00F6, and
  \<open>search_term\<close> and the batch over that one term raise; a batch over \<open>beta_salpaaja\<close>
  raises at its announcement, before any page is loaded.  On a standard output that
  encodes every character the same search returns "error".
\<close>

theorem an_exception_leaves_the_handler:
  "fst (search_fetch (ascii_stdout (fake_env True True fake_site)) beta_salpaaja signed_in)
     = Inl (TimeoutException (py ''Message: timed out''))
   \<and> fst (search_term (ascii_stdout (fake_env True True fake_site)) beta_salpaaja signed_in)
     = Inl (OtherException (py (''codec can'' @ [CHR 0x27] @ ''t encode character'')))
   \<and> fst (search_term (fake_env True True fake_site) beta_salpaaja signed_in)
     = Inr (py ''error'')
   \<and> fst (search_fetch (ascii_stdout (fake_env True True fake_site)) (py ''rikki'') signed_in)
     = Inl (OtherException (py (''Message: ikkunaa ei l'' @ [CHR 0xF6] @ ''ydy'')))
   \<and> fst (search_term (ascii_stdout (fake_env True True fake_site)) (py ''rikki'') signed_in)
     = Inl (OtherException (py (''codec can'' @ [CHR 0x27] @ ''t encode character'')))
   \<and> fst (search_multiple_terms (ascii_stdout (fake_env True True fake_site))
            [py ''rikki''] signed_in)
     = Inl (OtherException (py (''codec can'' @ [CHR 0x27] @ ''t encode character'')))
   \<and> search_multiple_terms (ascii_stdout (fake_env True True fake_site))
        [beta_salpaaja] signed_in
     = (Inl (OtherException (py (''codec can'' @ [CHR 0x27] @ ''t encode character''))),
        signed_in)"
  using fetch_beta term_beta term_beta_utf8 fetch_rikki term_rikki batch_rikki batch_beta
  by (intro conjI)

section \<open>The label depends on the page alone\<close>

text \<open>
  C9: whenever two searches, in any two states, with any two browsers and for any two
  terms, fetch the same page (under the same \<open>str.lower\<close>), \<open>search_term\<close> returns the same
  label for both: the label of that page under \<open>classify\<close>, which is "found" or
  "not found".  Classifying changes nothing: the state after \<open>search_term\<close> is the state
  after the fetch.
\<close>

theorem classification_depends_on_the_page_alone:
  assumes "fst (search_fetch E t s) = Inr c"
    and "fst (search_fetch E' t' s') = Inr c"
    and "str_lower E' = str_lower E"
  shows "fst (search_term E t s) = Inr (classify (str_lower E) c)
       \<and> fst (search_term E' t' s') = fst (search_term E t s)
       \<and> snd (search_term E t s) = snd (search_fetch E t s)
       \<and> snd (search_term E' t' s') = snd (search_fetch E' t' s')
       \<and> (classify (str_lower E) c = py ''found'' \<or> classify (str_lower E) c = py ''not found'')"
proof -
  have a: "search_term E t s = (Inr (classify (str_lower E) c), snd (search_fetch E t s))"
    using assms(1) by (cases "search_fetch E t s") (simp add: search_term_ok)
  have b: "search_term E' t' s' = (Inr (classify (str_lower E') c), snd (search_fetch E' t' s'))"
    using assms(2) by (cases "search_fetch E' t' s'") (simp add: search_term_ok)
  show ?thesis
    using a b assms(3) classify_label[of "str_lower E" c] by simp
qed

theorem classification_depends_on_the_page_alone_witness:
  "fst (search_fetch (fake_env True True fake_site) laakari signed_in)
     = Inr (py (''<p>Yhteens'' @ [CHR 0xE4] @ '' 305 osumaa</p>''))
   \<and> fst (search_fetch (fake_env False False fake_site) laakari fresh)
     = Inr (py (''<p>Yhteens'' @ [CHR 0xE4] @ '' 305 osumaa</p>''))
   \<and> str_lower (fake_env False False fake_site) = str_lower (fake_env True True fake_site)
   \<and> fst (search_term (fake_env True True fake_site) laakari signed_in) = Inr (py ''found'')
   \<and> fst (search_term (fake_env False False fake_site) laakari fresh) = Inr (py ''found'')"
proof -
  have l: "str_lower (fake_env False False fake_site) = str_lower (fake_env True True fake_site)"
    by (simp only: fake_lower)
  note t = classification_depends_on_the_page_alone[OF fetch_laakari_signed_in
      fetch_laakari_fresh l]
  have a: "fst (search_term (fake_env True True fake_site) laakari signed_in) = Inr (py ''found'')"
    using t[THEN conjunct1] by (simp only: fake_lower classify_305)
  have b: "fst (search_term (fake_env False False fake_site) laakari fresh) = Inr (py ''found'')"
    using t[THEN conjunct2, THEN conjunct1] a by (simp only:)
  show ?thesis
    using fetch_laakari_signed_in fetch_laakari_fresh l a b by (intro conjI)
qed

end
